theory Spec2Isabelle
  imports Main
begin

section \<open>Job\_Search.py: errors and text\<close>

text \<open>
  Exceptions of the program are values. A function of the source that can raise
  returns \<open>error + 'a\<close>, with \<open>Inl\<close> for the exception.
\<close>

datatype error =
    KeyError string
  | TypeError
  | AttributeError
  | ValueError
  | ProviderError string
  | DbError string

text \<open>
  Text is a \<open>string\<close>; a character is read as the code point of the same number
  (U+0000 to U+00FF). The character classes below are Python's for these code points:
  \<open>\d\<close> is the decimal digits, \<open>\w\<close> is \<open>str.isalnum\<close> or the underscore,
  \<open>\s\<close> and \<open>str.strip\<close> use \<open>str.isspace\<close>.
\<close>

definition code :: "char \<Rightarrow> nat" where
  "code c = of_char c"

definition is_digit :: "char \<Rightarrow> bool" where
  "is_digit c = (48 \<le> code c \<and> code c \<le> 57)"

definition is_alnum :: "char \<Rightarrow> bool" where
  "is_alnum c =
     (let n = code c in
        (48 \<le> n \<and> n \<le> 57) \<or> (65 \<le> n \<and> n \<le> 90) \<or> (97 \<le> n \<and> n \<le> 122)
        \<or> n = 170 \<or> n = 178 \<or> n = 179 \<or> n = 181 \<or> n = 185 \<or> n = 186
        \<or> (188 \<le> n \<and> n \<le> 190)
        \<or> (192 \<le> n \<and> n \<le> 214) \<or> (216 \<le> n \<and> n \<le> 246) \<or> 248 \<le> n)"

definition is_word :: "char \<Rightarrow> bool" where
  "is_word c = (is_alnum c \<or> c = CHR ''_'')"

definition is_space :: "char \<Rightarrow> bool" where
  "is_space c =
     (let n = code c in
        (9 \<le> n \<and> n \<le> 13) \<or> (28 \<le> n \<and> n \<le> 32) \<or> n = 133 \<or> n = 160)"

text \<open>\<open>str.strip()\<close>, \<open>str.replace(c, '')\<close> for one character, \<open>str.split(c)\<close>.\<close>

definition py_strip :: "string \<Rightarrow> string" where
  "py_strip s = rev (dropWhile is_space (rev (dropWhile is_space s)))"

definition py_remove :: "char \<Rightarrow> string \<Rightarrow> string" where
  "py_remove c s = filter (\<lambda>x. x \<noteq> c) s"

fun py_split :: "char \<Rightarrow> string \<Rightarrow> string list" where
  "py_split sep [] = [[]]"
| "py_split sep (c # cs) =
     (if c = sep then [] # py_split sep cs
      else (case py_split sep cs of
              [] \<Rightarrow> [[c]]
            | p # ps \<Rightarrow> (c # p) # ps))"

subsection \<open>\<open>int(str)\<close>\<close>

text \<open>
  \<open>int\<close> on a string, base ten: white space around the literal is skipped, then an
  optional sign, then decimal digits, where single underscores may stand between
  digits. Anything else raises \<open>ValueError\<close>. Of the white space of \<open>is_space\<close>,
  \<open>int\<close> itself skips all but U+001C to U+001F. A literal of more than
  \<open>int_max_str_digits\<close> digits raises \<open>ValueError\<close> as well: the interpreter's limit
  on the conversion (CPython 3.11, and 3.9 and 3.10 in their later releases), 4300
  unless it is configured, which the program does not do. The
  limit counts the digits, leading zeros among them, and neither the sign nor the
  underscores nor the white space.
\<close>

definition int_max_str_digits :: nat where
  "int_max_str_digits = 4300"

definition is_int_space :: "char \<Rightarrow> bool" where
  "is_int_space c = (is_space c \<and> \<not> (28 \<le> code c \<and> code c \<le> 31))"

definition digit_val :: "char \<Rightarrow> nat" where
  "digit_val c = code c - 48"

definition digits_value :: "string \<Rightarrow> nat" where
  "digits_value ds = foldl (\<lambda>acc c. 10 * acc + digit_val c) 0 ds"

fun digits_grouped :: "string \<Rightarrow> bool" where
  "digits_grouped [] = False"
| "digits_grouped [c] = is_digit c"
| "digits_grouped (c # d # cs) =
     (is_digit c \<and>
      (if d = CHR ''_'' then digits_grouped cs else digits_grouped (d # cs)))"

definition parse_digits :: "string \<Rightarrow> error + nat" where
  "parse_digits s =
     (if digits_grouped s \<and> length (py_remove (CHR ''_'') s) \<le> int_max_str_digits
      then Inr (digits_value (py_remove (CHR ''_'') s))
      else Inl ValueError)"

definition py_int :: "string \<Rightarrow> error + int" where
  "py_int s =
     (let t = rev (dropWhile is_int_space (rev (dropWhile is_int_space s)))
      in case t of
           [] \<Rightarrow> Inl ValueError
         | c # cs \<Rightarrow>
             if c = CHR ''-'' then map_sum id (\<lambda>n. - int n) (parse_digits cs)
             else if c = CHR ''+'' then map_sum id int (parse_digits cs)
             else map_sum id int (parse_digits t))"

section \<open>The pattern of \<open>filter_numbers\<close>\<close>

text \<open>
  The pattern \<^verbatim>\<open>\b\d+\+?|\b\d+\s*-\s*\d+\b\<close> is a list of alternatives, each a
  sequence of items over one-character classes. Matching is the backtracking search
  of \<open>re\<close>: alternatives in order, each repetition greedy, giving back one character
  at a time when what follows fails.
\<close>

datatype atom = Digit | Space | Lit char

fun atom_ok :: "atom \<Rightarrow> char \<Rightarrow> bool" where
  "atom_ok Digit c = is_digit c"
| "atom_ok Space c = is_space c"
| "atom_ok (Lit x) c = (c = x)"

datatype item = Boundary | One atom | Opt atom | Star atom | Plus atom

definition bare_number :: "item list" where
  "bare_number = [Boundary, Plus Digit, Opt (Lit (CHR ''+''))]"

definition number_range :: "item list" where
  "number_range =
     [Boundary, Plus Digit, Star Space, One (Lit (CHR ''-'')), Star Space, Plus Digit,
      Boundary]"

definition number_pattern :: "item list list" where
  "number_pattern = [bare_number, number_range]"

text \<open>
  \<open>\b\<close> holds between a word character and a character that is none; beyond both
  ends of the text there is no word character. \<open>prev\<close> is the character before the
  position (\<open>None\<close> at the start of the text).
\<close>

definition at_boundary :: "char option \<Rightarrow> string \<Rightarrow> bool" where
  "at_boundary prev s =
     ((case prev of None \<Rightarrow> False | Some p \<Rightarrow> is_word p)
      \<noteq> (case s of [] \<Rightarrow> False | c # _ \<Rightarrow> is_word c))"

text \<open>The text matched by a sequence of items at a position, if any.\<close>

fun match_items :: "item list \<Rightarrow> char option \<Rightarrow> string \<Rightarrow> string option" where
  "match_items [] prev s = Some []"
| "match_items (Boundary # is) prev s =
     (if at_boundary prev s then match_items is prev s else None)"
| "match_items (One a # is) prev [] = None"
| "match_items (One a # is) prev (c # cs) =
     (if atom_ok a c then map_option ((#) c) (match_items is (Some c) cs) else None)"
| "match_items (Opt a # is) prev [] = match_items is prev []"
| "match_items (Opt a # is) prev (c # cs) =
     (if atom_ok a c then
        (case match_items is (Some c) cs of
           Some m \<Rightarrow> Some (c # m)
         | None \<Rightarrow> match_items is prev (c # cs))
      else match_items is prev (c # cs))"
| "match_items (Star a # is) prev [] = match_items is prev []"
| "match_items (Star a # is) prev (c # cs) =
     (if atom_ok a c then
        (case match_items (Star a # is) (Some c) cs of
           Some m \<Rightarrow> Some (c # m)
         | None \<Rightarrow> match_items is prev (c # cs))
      else match_items is prev (c # cs))"
| "match_items (Plus a # is) prev [] = None"
| "match_items (Plus a # is) prev (c # cs) =
     (if atom_ok a c then map_option ((#) c) (match_items (Star a # is) (Some c) cs)
      else None)"

fun match_alts :: "item list list \<Rightarrow> char option \<Rightarrow> string \<Rightarrow> string option" where
  "match_alts [] prev s = None"
| "match_alts (alt # alts) prev s =
     (case match_items alt prev s of
        Some m \<Rightarrow> Some m
      | None \<Rightarrow> match_alts alts prev s)"

text \<open>
  \<open>re.findall\<close> for a pattern without groups: the matched texts from left to right,
  each search resuming where the last match ended. Every alternative of
  \<open>number_pattern\<close> takes at least one digit, so no match is empty; on an empty match
  the function gives it and resumes one character later.
\<close>

function re_findall :: "item list list \<Rightarrow> char option \<Rightarrow> string \<Rightarrow> string list" where
  "re_findall alts prev [] =
     (case match_alts alts prev [] of Some m \<Rightarrow> [m] | None \<Rightarrow> [])"
| "re_findall alts prev (c # cs) =
     (case match_alts alts prev (c # cs) of
        None \<Rightarrow> re_findall alts (Some c) cs
      | Some m \<Rightarrow>
          if m = [] then m # re_findall alts (Some c) cs
          else m # re_findall alts (Some (last m)) (drop (length m) (c # cs)))"
  by pat_completeness auto
termination
  by (relation "measure (\<lambda>(alts, prev, s). length s)") auto

section \<open>\<open>filter_numbers\<close>\<close>

definition filter_numbers :: "string \<Rightarrow> error + int" where
  "filter_numbers text =
     (let pattern = re_findall number_pattern None text in
      if pattern = [] then Inr 0
      else
        let match = hd pattern in
        py_int (if CHR ''-'' \<in> set match
                then py_strip (hd (py_split (CHR ''-'') match))
                else py_strip (py_remove (CHR ''+'') match)))"

section \<open>\<open>estimate_experience\<close>\<close>

text \<open>
  Values of the provider's payloads: text, or a dictionary from keys to values.
  \<open>d[k]\<close> raises \<open>KeyError\<close> on a dictionary without the key and \<open>TypeError\<close> on
  text. Numbers, lists and null are left out: the program reads none of them, and
  under a string key they raise \<open>TypeError\<close> as text does.
\<close>

datatype json = Str string | Obj "(string \<times> json) list"

fun getitem :: "json \<Rightarrow> string \<Rightarrow> error + json" where
  "getitem (Obj kvs) k = (case map_of kvs k of None \<Rightarrow> Inl (KeyError k) | Some v \<Rightarrow> Inr v)"
| "getitem (Str s) k = Inl TypeError"

fun getpath :: "json \<Rightarrow> string list \<Rightarrow> error + json" where
  "getpath j [] = Inr j"
| "getpath j (k # ks) = (case getitem j k of Inl e \<Rightarrow> Inl e | Inr v \<Rightarrow> getpath v ks)"

text \<open>
  The generative-text provider is a parameter: \<open>generate_content\<close> takes the state of
  the provider and the description that the fixed prompt embeds, and gives the text
  of the response (\<open>Inl\<close> when the call or the reading of the response's text raises)
  and the provider's next state. The prompt is determined by the description, so any
  behaviour on prompts is one on descriptions.
\<close>

type_synonym 'm provider = "'m \<Rightarrow> json \<Rightarrow> (error + string) \<times> 'm"

definition estimate_experience ::
  "'m provider \<Rightarrow> 'm \<Rightarrow> json \<Rightarrow> (error + int) \<times> 'm" where
  "estimate_experience generate_content ms descr =
     (case generate_content ms descr of
        (Inl e, ms') \<Rightarrow> (Inl e, ms')
      | (Inr text, ms') \<Rightarrow>
          (case py_int (py_strip text) of
             Inr n \<Rightarrow> (Inr n, ms')
           | Inl ValueError \<Rightarrow> (filter_numbers text, ms')
           | Inl e \<Rightarrow> (Inl e, ms')))"

section \<open>Fetching job details\<close>

text \<open>
  \<open>get_job\<close> is the provider's detail-fetch operation, a parameter: the details of a
  job identifier, or the error it raises. \<open>lru_cache(maxsize=1000)\<close> keeps the
  results of \<open>get_job_details\<close> by its arguments \<open>(api, job_id)\<close>, most recently
  used first; a call that raises stores nothing. \<open>remote_calls\<close> records each call
  that reached \<open>get_job\<close>.
\<close>

record 'a fetch_state =
  cache :: "(('a \<times> string) \<times> json) list"
  remote_calls :: "('a \<times> string) list"

definition maxsize :: nat where
  "maxsize = 1000"

definition get_job_details ::
  "('a \<Rightarrow> string \<Rightarrow> error + json) \<Rightarrow> 'a fetch_state \<Rightarrow> 'a \<Rightarrow> string
     \<Rightarrow> (error + json) \<times> 'a fetch_state" where
  "get_job_details get_job st api job_id =
     (let key = (api, job_id) in
      case map_of (cache st) key of
        Some v \<Rightarrow>
          (Inr v, st\<lparr>cache := (key, v) # filter (\<lambda>e. fst e \<noteq> key) (cache st)\<rparr>)
      | None \<Rightarrow>
          (case get_job api job_id of
             Inl e \<Rightarrow> (Inl e, st\<lparr>remote_calls := remote_calls st @ [key]\<rparr>)
           | Inr v \<Rightarrow>
               (Inr v, \<lparr>cache = take maxsize ((key, v) # cache st),
                         remote_calls = remote_calls st @ [key]\<rparr>)))"

text \<open>\<open>job['trackingUrn'].split(':')[-1]\<close>; text has \<open>split\<close>, a dictionary has not.\<close>

definition tracking_urn :: "json \<Rightarrow> error + string" where
  "tracking_urn job =
     (case getitem job ''trackingUrn'' of
        Inl e \<Rightarrow> Inl e
      | Inr (Obj kvs) \<Rightarrow> Inl AttributeError
      | Inr (Str s) \<Rightarrow> Inr (last (py_split (CHR '':'') s)))"

definition fetch_job_data ::
  "('a \<Rightarrow> string \<Rightarrow> error + json) \<Rightarrow> 'a fetch_state \<Rightarrow> 'a \<Rightarrow> json
     \<Rightarrow> (error + json) \<times> 'a fetch_state" where
  "fetch_job_data get_job st api job =
     (case tracking_urn job of
        Inl e \<Rightarrow> (Inl e, st)
      | Inr urn \<Rightarrow> get_job_details get_job st api urn)"

text \<open>
  \<open>list(executor.map(...))\<close> gives the results in the order of the jobs and raises
  the error of the first job, in that order, whose fetch raised; the call then yields
  no result at all. What is returned or raised does not depend on how the calls of the
  pool overlap, \<open>get_job\<close> being a function and the cache holding its results only; it
  is computed here with the fetches in the order of the jobs. The cache that the pool
  leaves behind and the calls that reached the provider do depend on the overlap (a
  job identifier that occurs twice in a batch can reach the provider twice), and they
  are no part of the result.
\<close>

fun parallel_job_search ::
  "('a \<Rightarrow> string \<Rightarrow> error + json) \<Rightarrow> 'a fetch_state \<Rightarrow> 'a \<Rightarrow> json list
     \<Rightarrow> error + json list" where
  "parallel_job_search get_job st api [] = Inr []"
| "parallel_job_search get_job st api (job # jobs) =
     (case fetch_job_data get_job st api job of
        (Inl e, st') \<Rightarrow> Inl e
      | (Inr d, st') \<Rightarrow>
          (case parallel_job_search get_job st' api jobs of
             Inl e \<Rightarrow> Inl e
           | Inr ds \<Rightarrow> Inr (d # ds)))"

section \<open>The table and \<open>batch_insert_jobs\<close>\<close>

text \<open>
  A row is the tuple that \<open>job_search\<close> builds, in the order of the columns
  \<open>Id, Url, Role, company, description, Experience, JobType\<close>.
\<close>

record job_record =
  rec_id :: int
  rec_url :: json
  rec_role :: json
  rec_company :: json
  rec_description :: json
  rec_experience :: int
  rec_job_type :: int

text \<open>
  The connection holds the rows of the table that are committed and those of the open
  transaction. \<open>executemany\<close> sends the rows of the batch as one multi-row
  \<open>INSERT\<close>, which the store applies whole or rejects whole: it is rejected when a
  value of a text column is no text, or when an \<open>Id\<close> of the batch is already in
  the table or occurs twice in the batch (the primary key). Both raise the
  connector's \<open>Error\<close>.
\<close>

record connection =
  committed :: "job_record list"
  pending :: "job_record list"

fun is_text :: "json \<Rightarrow> bool" where
  "is_text (Str s) = True"
| "is_text (Obj kvs) = False"

definition row_ok :: "job_record \<Rightarrow> bool" where
  "row_ok r =
     (is_text (rec_url r) \<and> is_text (rec_role r) \<and> is_text (rec_company r)
      \<and> is_text (rec_description r))"

definition executemany :: "job_record list \<Rightarrow> connection \<Rightarrow> error + connection" where
  "executemany rows conn =
     (if \<not> list_all row_ok rows then Inl (DbError ''Failed processing format-parameters'')
      else if \<not> distinct (map rec_id (committed conn @ pending conn @ rows))
      then Inl (DbError ''Duplicate entry for key PRIMARY'')
      else Inr (conn\<lparr>pending := pending conn @ rows\<rparr>))"

definition commit :: "connection \<Rightarrow> connection" where
  "commit conn = \<lparr>committed = committed conn @ pending conn, pending = []\<rparr>"

text \<open>What the program prints.\<close>

datatype line = JobError error | InsertError error

definition batch_insert_jobs ::
  "connection \<Rightarrow> job_record list \<Rightarrow> connection \<times> line list" where
  "batch_insert_jobs conn job_data_batch =
     (case executemany job_data_batch conn of
        Inr conn' \<Rightarrow> (commit conn', [])
      | Inl e \<Rightarrow> (conn, [InsertError e]))"

section \<open>\<open>job_search\<close>\<close>

definition company_path :: "string list" where
  "company_path =
     [''companyDetails'',
      ''com.linkedin.voyager.deco.jobs.web.shared.WebCompactJobPostingCompany'',
      ''companyResolutionResult'', ''name'']"

definition url_path :: "string list" where
  "url_path = [''applyMethod'', ''com.linkedin.voyager.jobs.OffsiteApply'', ''companyApplyUrl'']"

definition description_path :: "string list" where
  "description_path = [''description'', ''text'']"

definition title_path :: "string list" where
  "title_path = [''title'']"

text \<open>The four look-ups at the head of the \<open>try\<close> block, in their order.\<close>

definition job_fields :: "json \<Rightarrow> error + (json \<times> json \<times> json \<times> json)" where
  "job_fields job =
     (case getpath job company_path of
        Inl e \<Rightarrow> Inl e
      | Inr company_name \<Rightarrow>
     (case getpath job url_path of
        Inl e \<Rightarrow> Inl e
      | Inr url \<Rightarrow>
     (case getpath job description_path of
        Inl e \<Rightarrow> Inl e
      | Inr descr \<Rightarrow>
     (case getpath job title_path of
        Inl e \<Rightarrow> Inl e
      | Inr title \<Rightarrow> Inr (company_name, url, descr, title)))))"

text \<open>\<open>int(job['trackingUrn'].split(':')[-1])\<close>\<close>

definition tracking_number :: "json \<Rightarrow> error + int" where
  "tracking_number job = (case tracking_urn job of Inl e \<Rightarrow> Inl e | Inr urn \<Rightarrow> py_int urn)"

text \<open>
  The body of the \<open>try\<close> block for one job: the row to append, \<open>None\<close> when the
  experience is above one year, or the exception that the \<open>except\<close> clause catches.
\<close>

definition process_job ::
  "'m provider \<Rightarrow> int \<Rightarrow> json \<Rightarrow> 'm \<Rightarrow> (error + job_record option) \<times> 'm" where
  "process_job generate_content jt job ms =
     (case job_fields job of
        Inl e \<Rightarrow> (Inl e, ms)
      | Inr (company_name, url, descr, title) \<Rightarrow>
          (case estimate_experience generate_content ms descr of
             (Inl e, ms') \<Rightarrow> (Inl e, ms')
           | (Inr experience, ms') \<Rightarrow>
               if experience \<le> 1 then
                 (case tracking_number job of
                    Inl e \<Rightarrow> (Inl e, ms')
                  | Inr n \<Rightarrow>
                      (Inr (Some \<lparr>rec_id = n, rec_url = url, rec_role = title,
                                  rec_company = company_name, rec_description = descr,
                                  rec_experience = experience, rec_job_type = jt\<rparr>), ms'))
               else (Inr None, ms')))"

text \<open>The \<open>for\<close> loop: the batch, the printed lines and the state of the provider.\<close>

fun job_loop ::
  "'m provider \<Rightarrow> int \<Rightarrow> json list \<Rightarrow> job_record list \<Rightarrow> line list \<Rightarrow> 'm
     \<Rightarrow> job_record list \<times> line list \<times> 'm" where
  "job_loop generate_content jt [] job_data_batch out ms = (job_data_batch, out, ms)"
| "job_loop generate_content jt (job # rest) job_data_batch out ms =
     (case process_job generate_content jt job ms of
        (Inr (Some data_to_insert), ms') \<Rightarrow>
          job_loop generate_content jt rest (job_data_batch @ [data_to_insert]) out ms'
      | (Inr None, ms') \<Rightarrow> job_loop generate_content jt rest job_data_batch out ms'
      | (Inl e, ms') \<Rightarrow>
          job_loop generate_content jt rest job_data_batch (out @ [JobError e]) ms')"

text \<open>
  \<open>job_search\<close>: \<open>st\<close> is the cache when the call starts; the result is the state of
  the provider, the connection and what was printed.
\<close>

record 'm world =
  provider_state :: 'm
  database :: connection
  printed :: "line list"

definition job_search ::
  "('a \<Rightarrow> string \<Rightarrow> error + json) \<Rightarrow> 'm provider \<Rightarrow> 'a \<Rightarrow> json list \<Rightarrow> 'a fetch_state
     \<Rightarrow> 'm world \<Rightarrow> int \<Rightarrow> error + 'm world" where
  "job_search get_job generate_content api jobs st w jt =
     (case parallel_job_search get_job st api jobs of
        Inl e \<Rightarrow> Inl e
      | Inr job_details \<Rightarrow>
          (case job_loop generate_content jt job_details [] (printed w) (provider_state w) of
             (job_data_batch, out, ms') \<Rightarrow>
               (case (if job_data_batch \<noteq> [] then batch_insert_jobs (database w) job_data_batch
                      else (database w, [])) of
                  (conn', out') \<Rightarrow>
                    Inr \<lparr>provider_state = ms', database = conn', printed = out @ out'\<rparr>)))"

section \<open>Reference functions\<close>

text \<open>
  A number starts at a position when a digit stands there and the character before it,
  if any, is no word character. \<open>first_number_run\<close> is the first maximal run of digits
  that starts so, or the empty text when there is none.
\<close>

definition number_start :: "char option \<Rightarrow> string \<Rightarrow> bool" where
  "number_start prev s =
     (case s of
        [] \<Rightarrow> False
      | c # _ \<Rightarrow> is_digit c \<and> \<not> (case prev of None \<Rightarrow> False | Some p \<Rightarrow> is_word p))"

fun first_number_run :: "char option \<Rightarrow> string \<Rightarrow> string" where
  "first_number_run prev [] = []"
| "first_number_run prev (c # cs) =
     (if number_start prev (c # cs) then takeWhile is_digit (c # cs)
      else first_number_run (Some c) cs)"

text \<open>
  The simpler function in the words of the specification: the first maximal digit run
  in the text, or 0 if there is none (a run of digits holds no \<open>+\<close>).
\<close>

definition first_digit_run :: "string \<Rightarrow> int" where
  "first_digit_run text =
     int (digits_value (takeWhile is_digit (dropWhile (\<lambda>c. \<not> is_digit c) text)))"

text \<open>
  What \<open>int\<close> makes of a run of digits: its value, or \<open>ValueError\<close> when the run
  is longer than the interpreter's limit.
\<close>

definition run_value :: "string \<Rightarrow> error + int" where
  "run_value r =
     (if length r \<le> int_max_str_digits then Inr (int (digits_value r)) else Inl ValueError)"

text \<open>The integer that a sign and a magnitude denote.\<close>

definition signed :: "string \<Rightarrow> int \<Rightarrow> int" where
  "signed sg n = (if sg = ''-'' then - n else n)"

text \<open>The \<open>+\<close> that the first alternative takes after the digits, if one stands there.\<close>

definition plus_tail :: "string \<Rightarrow> string" where
  "plus_tail s =
     (case dropWhile is_digit s of [] \<Rightarrow> [] | c # _ \<Rightarrow> if c = CHR ''+'' then [c] else [])"

text \<open>
  The job record of a job detail, in the words of the specification: identifier, url,
  role title, company, description, experience and job type code, for a detail whose
  fields can be read, whose experience the estimator returns and whose tracking
  identifier is an integer. \<open>job_records\<close> are the records of the details of a batch,
  the provider being asked once for each detail whose fields can be read.
\<close>

definition job_record_of ::
  "'m provider \<Rightarrow> int \<Rightarrow> json \<Rightarrow> 'm \<Rightarrow> (error + job_record) \<times> 'm" where
  "job_record_of generate_content jt job ms =
     (case job_fields job of
        Inl e \<Rightarrow> (Inl e, ms)
      | Inr (company_name, url, descr, title) \<Rightarrow>
          (case estimate_experience generate_content ms descr of
             (Inl e, ms') \<Rightarrow> (Inl e, ms')
           | (Inr experience, ms') \<Rightarrow>
               (case tracking_number job of
                  Inl e \<Rightarrow> (Inl e, ms')
                | Inr n \<Rightarrow>
                    (Inr \<lparr>rec_id = n, rec_url = url, rec_role = title,
                          rec_company = company_name, rec_description = descr,
                          rec_experience = experience, rec_job_type = jt\<rparr>, ms'))))"

fun job_records :: "'m provider \<Rightarrow> int \<Rightarrow> json list \<Rightarrow> 'm \<Rightarrow> job_record list" where
  "job_records generate_content jt [] ms = []"
| "job_records generate_content jt (job # rest) ms =
     (case job_record_of generate_content jt job ms of
        (Inr r, ms') \<Rightarrow> r # job_records generate_content jt rest ms'
      | (Inl e, ms') \<Rightarrow> job_records generate_content jt rest ms')"

text \<open>
  What the fetch of one job gives without the cache, and a cache that holds only what
  \<open>get_job\<close> returns.
\<close>

definition fetch_value :: "('a \<Rightarrow> string \<Rightarrow> error + json) \<Rightarrow> 'a \<Rightarrow> json \<Rightarrow> error + json" where
  "fetch_value get_job api job =
     (case tracking_urn job of Inl e \<Rightarrow> Inl e | Inr urn \<Rightarrow> get_job api urn)"

definition coherent :: "('a \<Rightarrow> string \<Rightarrow> error + json) \<Rightarrow> 'a fetch_state \<Rightarrow> bool" where
  "coherent get_job st = list_all (\<lambda>((a, j), v). get_job a j = Inr v) (cache st)"

text \<open>
  The state after further calls of \<open>get_job_details\<close>, whatever they return, and the
  entry of a key being still in the cache behind entries of the keys \<open>S\<close> only.
\<close>

definition then_fetch ::
  "('a \<Rightarrow> string \<Rightarrow> error + json) \<Rightarrow> 'a fetch_state \<Rightarrow> ('a \<times> string) list \<Rightarrow> 'a fetch_state" where
  "then_fetch get_job st keys = foldl (\<lambda>s (a, j). snd (get_job_details get_job s a j)) st keys"

definition kept :: "('a \<times> string) \<Rightarrow> json \<Rightarrow> ('a \<times> string) set \<Rightarrow> 'a fetch_state \<Rightarrow> bool" where
  "kept k v S st =
     (distinct (map fst (cache st))
      \<and> (\<exists>pre post. cache st = pre @ (k, v) # post \<and> fst ` set pre \<subseteq> S))"

section \<open>Sample data\<close>

text \<open>
  A provider that gives the responses of a list in turn; a job summary and a job detail
  as the job-search provider returns them, and a detail that lacks its description; a
  detail-fetch operation that knows every job but 404; the state of a fresh process; a
  row of the table.
\<close>

fun scripted :: "(error + string) list provider" where
  "scripted [] descr = (Inl (ProviderError ''no response''), [])"
| "scripted (r # rs) descr = (r, rs)"

definition job_detail :: "string \<Rightarrow> string \<Rightarrow> json" where
  "job_detail descr urn =
     Obj [(''companyDetails'',
           Obj [(''com.linkedin.voyager.deco.jobs.web.shared.WebCompactJobPostingCompany'',
                 Obj [(''companyResolutionResult'', Obj [(''name'', Str ''Acme'')])])]),
          (''applyMethod'',
           Obj [(''com.linkedin.voyager.jobs.OffsiteApply'',
                 Obj [(''companyApplyUrl'', Str ''https://example.org/apply'')])]),
          (''description'', Obj [(''text'', Str descr)]),
          (''title'', Str ''Engineer''),
          (''trackingUrn'', Str urn)]"


definition job_summary :: "string \<Rightarrow> json" where
  "job_summary job_id = Obj [(''trackingUrn'', Str (''urn:li:jobPosting:'' @ job_id))]"

definition remote :: "unit \<Rightarrow> string \<Rightarrow> error + json" where
  "remote api job_id =
     (if job_id = ''404'' then Inl (ProviderError ''not found'')
      else Inr (job_detail (''Posting '' @ job_id) (''urn:li:jobPosting:'' @ job_id)))"

definition no_fetches :: "unit fetch_state" where
  "no_fetches = \<lparr>cache = [], remote_calls = []\<rparr>"

definition start :: "(error + string) list \<Rightarrow> (error + string) list world" where
  "start responses =
     \<lparr>provider_state = responses, database = \<lparr>committed = [], pending = []\<rparr>,
      printed = []\<rparr>"

definition row :: "int \<Rightarrow> job_record" where
  "row n =
     \<lparr>rec_id = n, rec_url = Str ''https://example.org/apply'', rec_role = Str ''Engineer'',
      rec_company = Str ''Acme'', rec_description = Str ''Entry level'', rec_experience = 0,
      rec_job_type = 1\<rparr>"

section \<open>Properties of the pattern\<close>

lemmas char_class = is_digit_def is_word_def is_alnum_def is_space_def code_def

lemma digit_word: "is_digit c \<Longrightarrow> is_word c"
  by (simp add: is_digit_def is_word_def is_alnum_def)

lemma digit_not_space: "is_digit c \<Longrightarrow> \<not> is_space c"
  by (auto simp add: is_digit_def is_space_def)

lemma sign_not_digit:
  "\<not> is_digit (CHR ''-'')" "\<not> is_digit (CHR ''+'')" "\<not> is_digit (CHR ''_'')"
  by (simp_all add: is_digit_def code_def)

lemma match_star_digit:
  "match_items [Star Digit, Opt (Lit (CHR ''+''))] prev s
     = Some (takeWhile is_digit s @ plus_tail s)"
proof (induction s arbitrary: prev)
  case Nil
  then show ?case by (simp add: plus_tail_def)
next
  case (Cons c cs)
  then show ?case by (cases "is_digit c") (simp_all add: plus_tail_def)
qed

lemma match_bare_number:
  "match_items bare_number prev s =
     (if number_start prev s then Some (takeWhile is_digit s @ plus_tail s) else None)"
proof (cases s)
  case Nil
  then show ?thesis by (simp add: bare_number_def number_start_def at_boundary_def)
next
  case (Cons c cs)
  show ?thesis
  proof (cases "is_digit c")
    case True
    then have "is_word c" by (rule digit_word)
    with True Cons show ?thesis
      by (auto simp add: bare_number_def number_start_def at_boundary_def match_star_digit
            plus_tail_def split: option.splits)
  next
    case False
    with Cons show ?thesis by (simp add: bare_number_def number_start_def)
  qed
qed

lemma match_number_range_none:
  assumes "\<not> number_start prev s"
  shows "match_items number_range prev s = None"
proof (cases s)
  case Nil
  then show ?thesis by (simp add: number_range_def)
next
  case (Cons c cs)
  show ?thesis
  proof (cases "is_digit c")
    case True
    then have "is_word c" by (rule digit_word)
    with True Cons assms show ?thesis
      by (auto simp add: number_range_def number_start_def at_boundary_def
            split: option.splits)
  next
    case False
    with Cons show ?thesis by (simp add: number_range_def)
  qed
qed

lemma match_alts_bare:
  "match_alts number_pattern prev s = match_alts [bare_number] prev s"
  by (cases "number_start prev s")
     (simp_all add: number_pattern_def match_bare_number match_number_range_none)

lemma re_findall_cong:
  "(\<And>prev s. match_alts A prev s = match_alts B prev s)
     \<Longrightarrow> re_findall A prev s = re_findall B prev s"
proof (induction A prev s rule: re_findall.induct)
  case (1 alts prev)
  then show ?case by simp
next
  case (2 alts prev c cs)
  then show ?case by (auto split: option.splits)
qed

lemma findall_bare: "re_findall number_pattern prev s = re_findall [bare_number] prev s"
  by (rule re_findall_cong) (rule match_alts_bare)

lemma findall_bare_empty:
  "re_findall [bare_number] prev s = [] \<longleftrightarrow> first_number_run prev s = []"
proof (induction s arbitrary: prev)
  case Nil
  then show ?case by (simp add: match_bare_number number_start_def)
next
  case (Cons c cs)
  then show ?case by (auto simp add: match_bare_number number_start_def)
qed

lemma findall_bare_hd:
  "re_findall [bare_number] prev s \<noteq> [] \<Longrightarrow>
     \<exists>p. hd (re_findall [bare_number] prev s) = first_number_run prev s @ p
        \<and> (p = [] \<or> p = ''+'')"
proof (induction s arbitrary: prev)
  case Nil
  then show ?case by (simp add: match_bare_number number_start_def)
next
  case (Cons c cs)
  then show ?case
    by (auto simp add: match_bare_number number_start_def plus_tail_def
          split: list.splits if_splits)
qed

subsection \<open>The conversion of a run of digits\<close>

lemma dropWhile_none: "\<forall>c\<in>set s. \<not> P c \<Longrightarrow> dropWhile P s = s"
  by (cases s) auto

lemma py_strip_id: "\<forall>c\<in>set s. \<not> is_space c \<Longrightarrow> py_strip s = s"
  by (simp add: py_strip_def dropWhile_none)

lemma int_strip_id:
  "\<forall>c\<in>set s. \<not> is_space c \<Longrightarrow>
     rev (dropWhile is_int_space (rev (dropWhile is_int_space s))) = s"
  by (simp add: dropWhile_none is_int_space_def)

lemma digits_grouped_all: "s \<noteq> [] \<Longrightarrow> \<forall>c\<in>set s. is_digit c \<Longrightarrow> digits_grouped s"
proof (induction s rule: digits_grouped.induct)
  case 1
  then show ?case by simp
next
  case (2 c)
  then show ?case by simp
next
  case (3 c d cs)
  then show ?case using sign_not_digit(3) by auto
qed

lemma py_remove_none: "c \<notin> set s \<Longrightarrow> py_remove c s = s"
  by (induction s) (auto simp add: py_remove_def)

lemma py_int_digits:
  assumes "s \<noteq> []" and "\<forall>c\<in>set s. is_digit c"
  shows "py_int s = run_value s"
proof -
  obtain c cs where s: "s = c # cs" using assms(1) by (cases s) auto
  have ns: "\<forall>c\<in>set s. \<not> is_space c" using assms(2) digit_not_space by blast
  have "is_digit c" using assms(2) s by simp
  then have c: "c \<noteq> CHR ''-'' \<and> c \<noteq> CHR ''+''" using sign_not_digit by blast
  have u: "CHR ''_'' \<notin> set s" using assms(2) sign_not_digit(3) by blast
  have "parse_digits s
      = (if length s \<le> int_max_str_digits then Inr (digits_value s) else Inl ValueError)"
    using assms u by (simp add: parse_digits_def digits_grouped_all py_remove_none)
  then show ?thesis
    using c s int_strip_id [OF ns] by (simp add: py_int_def run_value_def)
qed

lemma run_digits: "\<forall>c\<in>set (first_number_run prev s). is_digit c"
  by (induction s arbitrary: prev) (auto dest: set_takeWhileD)

lemma run_no_char: "\<not> is_digit x \<Longrightarrow> x \<notin> set (first_number_run prev s)"
  using run_digits by blast

subsection \<open>What \<open>filter_numbers\<close> returns\<close>

lemma first_match:
  assumes "re_findall [bare_number] None text \<noteq> []"
  shows "\<exists>p. hd (re_findall number_pattern None text) = first_number_run None text @ p
           \<and> (p = [] \<or> p = ''+'')
           \<and> CHR ''-'' \<notin> set (first_number_run None text @ p)"
proof -
  from findall_bare_hd [OF assms] obtain p where
    h: "hd (re_findall [bare_number] None text) = first_number_run None text @ p"
    and p: "p = [] \<or> p = ''+''" by blast
  have "CHR ''-'' \<notin> set (first_number_run None text)"
    by (rule run_no_char) (rule sign_not_digit)
  with p have "CHR ''-'' \<notin> set (first_number_run None text @ p)" by auto
  with h p show ?thesis by (auto simp add: findall_bare)
qed

lemma filter_numbers_run:
  "filter_numbers text = run_value (first_number_run None text)"
proof (cases "re_findall [bare_number] None text = []")
  case True
  then have "first_number_run None text = []" by (simp add: findall_bare_empty)
  with True show ?thesis
    by (simp add: filter_numbers_def findall_bare digits_value_def run_value_def)
next
  case False
  define r where "r = first_number_run None text"
  from first_match [OF False] obtain p where
    h: "hd (re_findall number_pattern None text) = r @ p" and p: "p = [] \<or> p = ''+''"
    and nominus: "CHR ''-'' \<notin> set (r @ p)"
    unfolding r_def by blast
  have r: "r \<noteq> []" using False by (simp add: findall_bare_empty r_def)
  have d: "\<forall>c\<in>set r. is_digit c" unfolding r_def by (rule run_digits)
  have pl: "CHR ''+'' \<notin> set r"
    unfolding r_def by (rule run_no_char) (rule sign_not_digit)
  have "py_remove (CHR ''+'') (r @ p) = r"
    using p py_remove_none [OF pl] by (auto simp add: py_remove_def)
  moreover have "py_strip r = r" using d digit_not_space by (simp add: py_strip_id)
  moreover have "re_findall number_pattern None text \<noteq> []"
    using False by (simp add: findall_bare)
  ultimately have "filter_numbers text = py_int r"
    using nominus h by (simp add: filter_numbers_def Let_def)
  then show ?thesis using py_int_digits [OF r d] by (simp add: r_def)
qed

lemma run_append:
  "first_number_run prev pre = [] \<Longrightarrow>
     first_number_run prev (pre @ s)
       = first_number_run (if pre = [] then prev else Some (last pre)) s"
proof (induction pre arbitrary: prev)
  case Nil
  then show ?case by simp
next
  case (Cons c cs)
  have ns: "\<not> number_start prev (c # cs)"
  proof
    assume a: "number_start prev (c # cs)"
    then have "is_digit c" by (simp add: number_start_def)
    with a Cons.prems show False by simp
  qed
  then have ns': "\<not> number_start prev (c # cs @ s)" by (simp add: number_start_def)
  from ns Cons.prems have "first_number_run (Some c) cs = []" by simp
  from Cons.IH [OF this] ns' show ?case by simp
qed

lemma run_no_digits: "\<forall>c\<in>set s. \<not> is_digit c \<Longrightarrow> first_number_run prev s = []"
  by (induction s arbitrary: prev) (auto simp add: number_start_def)

section \<open>The claims on \<open>filter_numbers\<close>\<close>

text \<open>
  Claim C2, as stated: for every text that contains a range \<open>N-M\<close>, \<open>filter_numbers\<close>
  returns \<open>N\<close>. It fails when a number stands before the range: the first match is
  that number.
\<close>

theorem filter_numbers_range_counterexample:
  "filter_numbers (''2 roles need '' @ ''3'' @ ''-'' @ ''5'' @ '' years'') = Inr 2
   \<and> filter_numbers (''2 roles need '' @ ''3'' @ ''-'' @ ''5'' @ '' years'') \<noteq> Inr 3"
  by code_simp

text \<open>
  Claim C2, amended: when no number starts in the text before the range \<open>N-M\<close> and
  \<open>N\<close> itself starts a number (the range stands at the start of the text or after a
  character that is no letter, digit or underscore), \<open>filter_numbers\<close> returns \<open>N\<close>
  if \<open>N\<close> has at most 4300 digits, and raises \<open>ValueError\<close> if it has more.
  On ``Minimum 3-5 years experience required'' it returns 3.
\<close>

theorem filter_numbers_range_lower:
  assumes "first_number_run None pre = []"
    and "pre = [] \<or> \<not> is_word (last pre)"
    and "n \<noteq> []" and "\<forall>c\<in>set n. is_digit c"
  shows "filter_numbers (pre @ n @ ''-'' @ m @ post)
           = (if length n \<le> 4300 then Inr (int (digits_value n)) else Inl ValueError)"
proof -
  obtain d ds where n: "n = d # ds" using assms(3) by (cases n) auto
  let ?p = "if pre = [] then None else Some (last pre)"
  have st: "number_start ?p (n @ ''-'' @ m @ post)"
    using assms(2,4) n by (auto simp add: number_start_def)
  have "takeWhile is_digit (n @ ''-'' @ m @ post) = n"
    using assms(4) sign_not_digit(1) by simp
  with st n have "first_number_run ?p (n @ ''-'' @ m @ post) = n" by simp
  with run_append [OF assms(1), of "n @ ''-'' @ m @ post"]
  have "first_number_run None (pre @ n @ ''-'' @ m @ post) = n" by simp
  then show ?thesis by (simp add: filter_numbers_run run_value_def int_max_str_digits_def)
qed

theorem filter_numbers_range_lower_witness:
  "first_number_run None ''Minimum '' = [] \<and> \<not> is_word (last ''Minimum '')
   \<and> list_all is_digit ''3''
   \<and> filter_numbers ''Minimum 3-5 years experience required'' = Inr 3"
proof -
  have a: "first_number_run None ''Minimum '' = []"
    by (simp add: number_start_def char_class)
  have b: "''Minimum '' = [] \<or> \<not> is_word (last ''Minimum '')" by (simp add: char_class)
  have c: "''3'' \<noteq> []" by simp
  have d: "\<forall>c\<in>set ''3''. is_digit c" by (simp add: char_class)
  have e: "digits_value ''3'' = 3" by (simp add: digits_value_def digit_val_def code_def)
  show ?thesis
    using a b d e
      filter_numbers_range_lower [OF a b c d, of "''5''" "'' years experience required''"]
    by simp
qed

text \<open>
  Claim C9: for every text that contains no digit, \<open>filter_numbers\<close> returns 0.
\<close>

theorem filter_numbers_no_digits:
  "\<forall>c\<in>set text. \<not> is_digit c \<Longrightarrow> filter_numbers text = Inr 0"
  by (simp add: filter_numbers_run run_no_digits run_value_def digits_value_def)

theorem filter_numbers_no_digits_witness:
  "list_all (\<lambda>c. \<not> is_digit c) ''entry level'' \<and> filter_numbers ''entry level'' = Inr 0"
proof -
  have a: "\<forall>c\<in>set ''entry level''. \<not> is_digit c" by (simp add: char_class)
  show ?thesis using a filter_numbers_no_digits [OF a] by simp
qed

text \<open>
  Claim C10, as stated: \<open>filter_numbers\<close> equals the first maximal digit run of the
  text, or 0. It fails on a digit run that follows a letter: \<open>\b\<close> does not hold
  before it, so the pattern does not match there.
\<close>

theorem first_digit_run_counterexample:
  "filter_numbers ''a1'' = Inr 0 \<and> first_digit_run ''a1'' = 1
   \<and> filter_numbers ''a1'' \<noteq> Inr (first_digit_run ''a1'')"
  by (simp add: filter_numbers_run run_value_def first_digit_run_def number_start_def
        digits_value_def digit_val_def char_class)

text \<open>
  Claim C10, amended: for every text, \<open>filter_numbers\<close> is the conversion of the first
  maximal digit run that starts at a word boundary (at the start of the text or after
  a character that is no letter, digit or underscore): it returns the value of that
  run, or 0 if there is none, and raises \<open>ValueError\<close> when the run has more than
  4300 digits. The matches of the pattern are those of its first alternative alone,
  so the range alternative never gives the selected match, and the selected match
  holds no \<open>-\<close>: the branch that splits at \<open>-\<close> is not reached.
\<close>

theorem filter_numbers_first_boundary_run:
  "filter_numbers text
     = (if length (first_number_run None text) \<le> 4300
        then Inr (int (digits_value (first_number_run None text)))
        else Inl ValueError)
   \<and> re_findall number_pattern None text = re_findall [bare_number] None text
   \<and> (case re_findall number_pattern None text of
        [] \<Rightarrow> True
      | match # _ \<Rightarrow> CHR ''-'' \<notin> set match)"
proof -
  have "case re_findall number_pattern None text of
          [] \<Rightarrow> True
        | match # _ \<Rightarrow> CHR ''-'' \<notin> set match"
  proof (cases "re_findall number_pattern None text")
    case Nil
    then show ?thesis by simp
  next
    case (Cons a list)
    then have "re_findall [bare_number] None text \<noteq> []" by (simp add: findall_bare)
    from first_match [OF this] Cons show ?thesis by auto
  qed
  moreover have "filter_numbers text
     = (if length (first_number_run None text) \<le> 4300
        then Inr (int (digits_value (first_number_run None text)))
        else Inl ValueError)"
    by (simp add: filter_numbers_run run_value_def int_max_str_digits_def)
  ultimately show ?thesis using findall_bare by blast
qed

section \<open>The claims on \<open>estimate_experience\<close>\<close>

lemma parse_digits_error: "parse_digits s = Inl e \<Longrightarrow> e = ValueError"
  by (simp add: parse_digits_def split: if_splits)

lemma py_int_error: "py_int s = Inl e \<Longrightarrow> e = ValueError"
  by (auto simp add: py_int_def Let_def map_sum_def dest: parse_digits_error
        split: list.splits if_splits sum.splits)

lemma dropWhile_snoc: "\<not> P a \<Longrightarrow> \<exists>z. dropWhile P (xs @ [a]) = z @ [a]"
  by (induction xs) auto

lemma py_strip_ends:
  "py_strip s = [] \<or> (\<not> is_space (hd (py_strip s)) \<and> \<not> is_space (last (py_strip s)))"
proof (cases "dropWhile is_space s")
  case Nil
  show ?thesis unfolding py_strip_def Nil by simp
next
  case (Cons a w)
  then have a: "\<not> is_space a" using hd_dropWhile [of is_space s] by auto
  from dropWhile_snoc [of is_space a "rev w"] a obtain z where
    z: "dropWhile is_space (rev w @ [a]) = z @ [a]" by blast
  have u: "py_strip s = a # rev z" using Cons z by (simp add: py_strip_def)
  have "\<not> is_space (last (py_strip s))"
  proof (cases z)
    case Nil
    with u a show ?thesis by simp
  next
    case (Cons b z')
    have "\<not> is_space (hd (dropWhile is_space (rev w @ [a])))"
      by (rule hd_dropWhile) (simp add: z)
    with z Cons have "\<not> is_space b" by simp
    with u Cons show ?thesis by simp
  qed
  with u a show ?thesis by simp
qed

lemma int_strip_stripped:
  "rev (dropWhile is_int_space (rev (dropWhile is_int_space (py_strip s)))) = py_strip s"
proof (cases "py_strip s = []")
  case True
  then show ?thesis by simp
next
  case False
  with py_strip_ends [of s] have h: "\<not> is_space (hd (py_strip s))"
    and l: "\<not> is_space (last (py_strip s))" by auto
  from False h have "dropWhile is_int_space (py_strip s) = py_strip s"
    by (cases "py_strip s") (auto simp add: is_int_space_def)
  moreover from False l have "dropWhile is_int_space (rev (py_strip s)) = rev (py_strip s)"
    by (cases "rev (py_strip s)") (auto simp add: is_int_space_def last_rev[symmetric] hd_rev)
  ultimately show ?thesis by simp
qed


lemma sign_not_space: "\<not> is_space (CHR ''-'')" "\<not> is_space (CHR ''+'')"
  by (simp_all add: is_space_def code_def)

lemma dropWhile_all: "list_all P ws \<Longrightarrow> dropWhile P (ws @ s) = dropWhile P s"
  by (induction ws) auto

lemma py_strip_surround:
  assumes "list_all is_space ws1" and "list_all is_space ws2"
    and "\<forall>c\<in>set m. \<not> is_space c"
  shows "py_strip (ws1 @ m @ ws2) = m"
proof (cases m)
  case Nil
  have "\<forall>x\<in>set (ws1 @ ws2). is_space x" using assms(1,2) by (auto simp add: list_all_iff)
  then have e: "dropWhile is_space (ws1 @ ws2) = []" by (simp only: dropWhile_eq_Nil_conv)
  show ?thesis unfolding Nil py_strip_def append_Nil e by simp
next
  case (Cons a w)
  have "dropWhile is_space (ws1 @ m @ ws2) = dropWhile is_space (m @ ws2)"
    using assms(1) by (rule dropWhile_all)
  also have "\<dots> = m @ ws2" using Cons assms(3) by simp
  finally have 1: "dropWhile is_space (ws1 @ m @ ws2) = m @ ws2" .
  have "list_all is_space (rev ws2)" using assms(2) by (simp add: list_all_iff)
  then have "dropWhile is_space (rev ws2 @ rev m) = dropWhile is_space (rev m)"
    by (rule dropWhile_all)
  also have "\<dots> = rev m" using assms(3) by (simp add: dropWhile_none)
  finally show ?thesis by (simp add: py_strip_def 1)
qed

lemma py_int_literal:
  assumes "sg = [] \<or> sg = ''+'' \<or> sg = ''-''"
    and "ds \<noteq> []" and "\<forall>c\<in>set ds. is_digit c" and "length ds \<le> 4300"
  shows "py_int (sg @ ds) = Inr (signed sg (int (digits_value ds)))"
proof -
  obtain c cs where ds: "ds = c # cs" using assms(2) by (cases ds) auto
  have "is_digit c" using assms(3) ds by simp
  then have c: "c \<noteq> CHR ''-'' \<and> c \<noteq> CHR ''+''" using sign_not_digit by blast
  have ns: "\<forall>c\<in>set (sg @ ds). \<not> is_space c"
    using assms(1,3) digit_not_space sign_not_space by auto
  have u: "CHR ''_'' \<notin> set ds" using assms(3) sign_not_digit(3) by blast
  have p: "parse_digits ds = Inr (digits_value ds)"
    using assms u
    by (simp add: parse_digits_def digits_grouped_all py_remove_none int_max_str_digits_def)
  from assms(1) show ?thesis
    using c ds p int_strip_id [OF ns]
    by (auto simp add: py_int_def signed_def)
qed

lemma digits_grouped_chars:
  "digits_grouped s \<Longrightarrow> c \<in> set s \<Longrightarrow> is_digit c \<or> c = CHR ''_''"
  by (induction s rule: digits_grouped.induct) (auto split: if_splits)

lemma parse_digits_other:
  "c \<in> set s \<Longrightarrow> \<not> is_digit c \<Longrightarrow> c \<noteq> CHR ''_'' \<Longrightarrow> parse_digits s = Inl ValueError"
  using digits_grouped_chars [of s c] by (auto simp add: parse_digits_def)

lemma dropWhile_keeps: "c \<in> set s \<Longrightarrow> \<not> P c \<Longrightarrow> c \<in> set (dropWhile P s)"
  by (induction s) auto

lemma py_strip_keeps: "c \<in> set s \<Longrightarrow> \<not> is_space c \<Longrightarrow> c \<in> set (py_strip s)"
proof -
  assume a: "c \<in> set s" "\<not> is_space c"
  then have "c \<in> set (rev (dropWhile is_space s))" by (simp add: dropWhile_keeps)
  then have "c \<in> set (dropWhile is_space (rev (dropWhile is_space s)))"
    using a(2) by (rule dropWhile_keeps)
  then show ?thesis by (simp add: py_strip_def)
qed

lemma py_int_other:
  assumes "c \<in> set s" and "\<not> is_digit c" and "\<not> is_space c"
    and "c \<noteq> CHR ''_''" and "c \<noteq> CHR ''+''" and "c \<noteq> CHR ''-''"
  shows "py_int (py_strip s) = Inl ValueError"
proof -
  have m: "c \<in> set (py_strip s)" using assms(1,3) by (rule py_strip_keeps)
  then obtain a w where t: "py_strip s = a # w" by (cases "py_strip s") auto
  have 1: "parse_digits (a # w) = Inl ValueError"
    using m assms(2,4) unfolding t by (rule parse_digits_other)
  have 2: "parse_digits w = Inl ValueError" if "a = CHR ''-'' \<or> a = CHR ''+''"
  proof -
    from that m t assms(5,6) have "c \<in> set w" by auto
    then show ?thesis using assms(2,4) by (rule parse_digits_other)
  qed
  have e: "rev (dropWhile is_int_space (rev (dropWhile is_int_space (a # w)))) = a # w"
    using int_strip_stripped [of s] unfolding t .
  show ?thesis
    unfolding t py_int_def Let_def e
    using 1 2 by auto
qed

lemma estimate_cases:
  assumes "generate_content ms descr = (Inr text, ms')"
  shows "estimate_experience generate_content ms descr =
           (case py_int (py_strip text) of
              Inr n \<Rightarrow> (Inr n, ms')
            | Inl e \<Rightarrow> (filter_numbers text, ms'))"
proof (cases "py_int (py_strip text)")
  case (Inl e)
  then have "e = ValueError" by (rule py_int_error)
  with Inl assms show ?thesis by (simp add: estimate_experience_def)
next
  case (Inr n)
  with assms show ?thesis by (simp add: estimate_experience_def)
qed

lemma estimate_literal:
  assumes "generate_content ms descr = (Inr (ws1 @ sg @ ds @ ws2), ms')"
    and "list_all is_space ws1" and "list_all is_space ws2"
    and "sg = [] \<or> sg = ''+'' \<or> sg = ''-''"
    and "ds \<noteq> []" and "list_all is_digit ds" and "length ds \<le> 4300"
  shows "estimate_experience generate_content ms descr
           = (Inr (signed sg (int (digits_value ds))), ms')"
proof -
  have d: "\<forall>c\<in>set ds. is_digit c" using assms(6) by (simp add: list_all_iff)
  have ns: "\<forall>c\<in>set (sg @ ds). \<not> is_space c"
    using assms(4) d digit_not_space sign_not_space by auto
  have "py_strip (ws1 @ (sg @ ds) @ ws2) = sg @ ds"
    using assms(2,3) ns by (rule py_strip_surround)
  then have "py_int (py_strip (ws1 @ sg @ ds @ ws2)) = Inr (signed sg (int (digits_value ds)))"
    using py_int_literal [OF assms(4,5) d assms(7)] by simp
  with estimate_cases [of generate_content ms descr "ws1 @ sg @ ds @ ws2" ms', OF assms(1)]
  show ?thesis by simp
qed

lemma estimate_other:
  assumes "generate_content ms descr = (Inr text, ms')"
    and "c \<in> set text" and "\<not> is_digit c" and "\<not> is_space c"
    and "c \<noteq> CHR ''_''" and "c \<noteq> CHR ''+''" and "c \<noteq> CHR ''-''"
  shows "estimate_experience generate_content ms descr = (filter_numbers text, ms')"
  using estimate_cases [of generate_content ms descr "text" ms', OF assms(1)]
    py_int_other [OF assms(2-7)]
  by simp

text \<open>
  Claim C7: the estimator first parses the trimmed text of the response as an integer
  and runs \<open>filter_numbers\<close> on the text only when that parse fails. So a response
  that is, between white space, an optional sign and at most 4300 digits gives the
  integer it denotes (where \<open>filter_numbers\<close> would drop the sign); a response with
  a character that is no digit, sign, underscore or white space gives what
  \<open>filter_numbers\<close> gives; and when the provider returns the exact text ``1'', the
  estimator returns 1 by the direct parse.
\<close>

theorem estimate_direct_parse_first:
  assumes "generate_content ms descr = (Inr text, ms')"
  shows "estimate_experience generate_content ms descr
           = (case py_int (py_strip text) of
                Inr n \<Rightarrow> (Inr n, ms')
              | Inl e \<Rightarrow> (filter_numbers text, ms'))
         \<and> (\<forall>ws1 sg ds ws2.
               text = ws1 @ sg @ ds @ ws2 \<and> list_all is_space ws1 \<and> list_all is_space ws2
               \<and> (sg = [] \<or> sg = ''+'' \<or> sg = ''-'')
               \<and> ds \<noteq> [] \<and> list_all is_digit ds \<and> length ds \<le> 4300
               \<longrightarrow> estimate_experience generate_content ms descr
                     = (Inr (if sg = ''-'' then - int (digits_value ds)
                             else int (digits_value ds)), ms'))
         \<and> (\<forall>c. c \<in> set text \<and> \<not> is_digit c \<and> \<not> is_space c
                 \<and> c \<noteq> CHR ''_'' \<and> c \<noteq> CHR ''+'' \<and> c \<noteq> CHR ''-''
               \<longrightarrow> estimate_experience generate_content ms descr = (filter_numbers text, ms'))
         \<and> (text = ''1''
               \<longrightarrow> estimate_experience generate_content ms descr = (Inr 1, ms'))"
proof (intro conjI allI impI)
  show "estimate_experience generate_content ms descr
           = (case py_int (py_strip text) of
                Inr n \<Rightarrow> (Inr n, ms')
              | Inl e \<Rightarrow> (filter_numbers text, ms'))"
    using assms by (rule estimate_cases)
next
  fix ws1 sg ds ws2
  assume a: "text = ws1 @ sg @ ds @ ws2 \<and> list_all is_space ws1 \<and> list_all is_space ws2
               \<and> (sg = [] \<or> sg = ''+'' \<or> sg = ''-'')
               \<and> ds \<noteq> [] \<and> list_all is_digit ds \<and> length ds \<le> 4300"
  with assms have g: "generate_content ms descr = (Inr (ws1 @ sg @ ds @ ws2), ms')" by simp
  from a have "estimate_experience generate_content ms descr
      = (Inr (signed sg (int (digits_value ds))), ms')"
    by (intro estimate_literal [of generate_content ms descr ws1 sg ds ws2 ms', OF g]) simp_all
  then show "estimate_experience generate_content ms descr
                     = (Inr (if sg = ''-'' then - int (digits_value ds)
                             else int (digits_value ds)), ms')"
    by (simp add: signed_def)
next
  fix c
  assume "c \<in> set text \<and> \<not> is_digit c \<and> \<not> is_space c
                 \<and> c \<noteq> CHR ''_'' \<and> c \<noteq> CHR ''+'' \<and> c \<noteq> CHR ''-''"
  then show "estimate_experience generate_content ms descr = (filter_numbers text, ms')"
    by (intro estimate_other [of generate_content ms descr "text" ms' c, OF assms]) simp_all
next
  assume t: "text = ''1''"
  have "py_int (py_strip ''1'') = Inr 1" by code_simp
  with estimate_cases [of generate_content ms descr "text" ms', OF assms] t
  show "estimate_experience generate_content ms descr = (Inr 1, ms')" by simp
qed

theorem estimate_direct_parse_first_witness:
  "estimate_experience scripted [Inr ''1''] (Str ''Junior developer'') = (Inr 1, [])
   \<and> estimate_experience scripted [Inr '' -5 ''] (Str ''Junior developer'') = (Inr (- 5), [])
   \<and> filter_numbers '' -5 '' = Inr 5
   \<and> estimate_experience scripted [Inr ''about 2 years''] (Str ''Junior developer'')
       = (Inr 2, [])"
proof -
  let ?d = "Str ''Junior developer''"
  have g1: "scripted [Inr ''1''] ?d = (Inr ''1'', [])" by simp
  from estimate_direct_parse_first [of scripted "[Inr ''1'']" ?d "''1''" "[]", OF g1]
  have "''1'' = ''1'' \<longrightarrow> estimate_experience scripted [Inr ''1''] ?d = (Inr 1, [])"
    by blast
  then have 1: "estimate_experience scripted [Inr ''1''] ?d = (Inr 1, [])" by simp
  have sp: "list_all is_space '' ''" by (simp add: char_class)
  have dg: "list_all is_digit ''5''" by (simp add: char_class)
  have v: "digits_value ''5'' = 5" by (simp add: digits_value_def digit_val_def code_def)
  have g2: "scripted [Inr '' -5 ''] ?d = (Inr '' -5 '', [])" by simp
  from estimate_direct_parse_first [of scripted "[Inr '' -5 '']" ?d "'' -5 ''" "[]", OF g2]
  have "'' -5 '' = '' '' @ ''-'' @ ''5'' @ '' '' \<and> list_all is_space '' '' \<and> list_all is_space '' ''
        \<and> (''-'' = [] \<or> ''-'' = ''+'' \<or> ''-'' = ''-'')
        \<and> ''5'' \<noteq> [] \<and> list_all is_digit ''5'' \<and> length ''5'' \<le> 4300
      \<longrightarrow> estimate_experience scripted [Inr '' -5 ''] ?d
            = (Inr (if ''-'' = ''-'' then - int (digits_value ''5'') else int (digits_value ''5'')), [])"
    by blast
  with sp dg v have 2: "estimate_experience scripted [Inr '' -5 ''] ?d = (Inr (- 5), [])"
    by simp
  have 3: "filter_numbers '' -5 '' = Inr 5" by code_simp
  have g4: "scripted [Inr ''about 2 years''] ?d = (Inr ''about 2 years'', [])" by simp
  from estimate_direct_parse_first
         [of scripted "[Inr ''about 2 years'']" ?d "''about 2 years''" "[]", OF g4]
  have "CHR ''a'' \<in> set ''about 2 years'' \<and> \<not> is_digit (CHR ''a'') \<and> \<not> is_space (CHR ''a'')
          \<and> CHR ''a'' \<noteq> CHR ''_'' \<and> CHR ''a'' \<noteq> CHR ''+'' \<and> CHR ''a'' \<noteq> CHR ''-''
      \<longrightarrow> estimate_experience scripted [Inr ''about 2 years''] ?d
            = (filter_numbers ''about 2 years'', [])"
    by blast
  moreover have "filter_numbers ''about 2 years'' = Inr 2" by code_simp
  ultimately have 4: "estimate_experience scripted [Inr ''about 2 years''] ?d = (Inr 2, [])"
    by (simp add: char_class)
  from 1 2 3 4 show ?thesis by simp
qed




section \<open>The claims on the loop of \<open>job_search\<close>\<close>

lemma process_job_record:
  "process_job g jt job ms =
     (case job_record_of g jt job ms of
        (Inl e, ms') \<Rightarrow>
           (case job_fields job of
              Inl e \<Rightarrow> (Inl e, ms')
            | Inr f \<Rightarrow> (case fst (estimate_experience g ms (fst (snd (snd f)))) of
                         Inl e \<Rightarrow> (Inl e, ms')
                       | Inr x \<Rightarrow> if x \<le> 1 then (Inl e, ms') else (Inr None, ms')))
      | (Inr r, ms') \<Rightarrow> (if rec_experience r \<le> 1 then (Inr (Some r), ms') else (Inr None, ms')))"
  by (auto simp add: process_job_def job_record_of_def split: sum.splits prod.splits)

lemma job_loop_batch:
  "fst (job_loop g jt jobs b out ms)
     = b @ filter (\<lambda>r. rec_experience r \<le> 1) (job_records g jt jobs ms)"
proof (induction jobs arbitrary: b out ms)
  case Nil
  then show ?case by simp
next
  case (Cons job rest)
  show ?case
    by (auto simp add: Cons.IH process_job_record split: sum.splits prod.splits)
qed



text \<open>
  Claim C1, as stated: a job record is persisted if and only if its estimated experience
  is at most 1. It fails when the insert of the batch fails: two summaries of one job
  give two records with experience 0 and 1 and one \<open>Id\<close>, the insert is rejected and
  nothing is committed.
\<close>

theorem batch_not_persisted_counterexample:
  "map rec_experience
     (fst (job_loop scripted 1
             [job_detail ''Posting 7'' ''urn:li:jobPosting:7'',
              job_detail ''Posting 7'' ''urn:li:jobPosting:7'']
             [] [] [Inr ''0'', Inr ''1''])) = [0, 1]
   \<and> job_search remote scripted () [job_summary ''7'', job_summary ''7''] no_fetches
        (start [Inr ''0'', Inr ''1'']) 1
      = Inr \<lparr>provider_state = [], database = \<lparr>committed = [], pending = []\<rparr>,
             printed = [InsertError (DbError ''Duplicate entry for key PRIMARY'')]\<rparr>"
  by code_simp

text \<open>
  Claim C1, amended: the batch that the loop builds holds a job record if and only if
  its estimated experience is at most 1; no other predicate decides on a record. The
  records of the batch are persisted together or not at all: when the batch is not
  empty and its insert succeeds, the call adds exactly its records (after the rows of
  an open transaction) to the committed rows; when the insert fails, as on an \<open>Id\<close>
  that occurs twice in the batch or is in the table already, or when the batch is
  empty, the committed rows stay as they were.
\<close>

theorem batch_is_experience_filter:
  "fst (job_loop g jt details [] out ms)
     = filter (\<lambda>r. rec_experience r \<le> 1) (job_records g jt details ms)
   \<and> (parallel_job_search get_job st api jobs = Inr details
      \<longrightarrow> (\<exists>w'. job_search get_job g api jobs st w jt = Inr w'
             \<and> committed (database w')
                 = (let batch = filter (\<lambda>r. rec_experience r \<le> 1)
                                  (job_records g jt details (provider_state w))
                    in if batch = [] then committed (database w)
                       else case executemany batch (database w) of
                              Inr c \<Rightarrow> committed (database w) @ pending (database w) @ batch
                            | Inl e \<Rightarrow> committed (database w))))"
proof -
  define batch where
    "batch = filter (\<lambda>r. rec_experience r \<le> 1) (job_records g jt details (provider_state w))"
  have loop: "fst (job_loop g jt details [] out s)
      = filter (\<lambda>r. rec_experience r \<le> 1) (job_records g jt details s)" for out s
    using job_loop_batch [of g jt details "[]" out s] by simp
  have "\<exists>w'. job_search get_job g api jobs st w jt = Inr w'
             \<and> committed (database w')
                 = (if batch = [] then committed (database w)
                    else case executemany batch (database w) of
                           Inr c \<Rightarrow> committed (database w) @ pending (database w) @ batch
                         | Inl e \<Rightarrow> committed (database w))"
    if p: "parallel_job_search get_job st api jobs = Inr details"
  proof -
    obtain b out' ms' where
      l: "job_loop g jt details [] (printed w) (provider_state w) = (b, out', ms')"
      by (cases "job_loop g jt details [] (printed w) (provider_state w)")
    with loop [of "printed w" "provider_state w"] have b: "b = batch" by (simp add: batch_def)
    show ?thesis
    proof (cases "batch = []")
      case True
      with p l b show ?thesis by (simp add: job_search_def)
    next
      case False
      show ?thesis
      proof (cases "executemany batch (database w)")
        case (Inl e)
        with False p l b show ?thesis
          by (simp add: job_search_def batch_insert_jobs_def)
      next
        case (Inr c)
        then have c: "c = (database w)\<lparr>pending := pending (database w) @ batch\<rparr>"
          by (auto simp add: executemany_def split: if_splits)
        with Inr False p l b show ?thesis
          by (simp add: job_search_def batch_insert_jobs_def commit_def)
      qed
    qed
  qed
  with loop show ?thesis unfolding batch_def Let_def by blast
qed

theorem batch_is_experience_filter_witness:
  "parallel_job_search remote no_fetches () [job_summary ''11'', job_summary ''13'']
     = Inr [job_detail ''Posting 11'' ''urn:li:jobPosting:11'',
            job_detail ''Posting 13'' ''urn:li:jobPosting:13'']
   \<and> (\<exists>w'. job_search remote scripted () [job_summary ''11'', job_summary ''13''] no_fetches
               (start [Inr ''1'', Inr ''3-5 years'']) 1 = Inr w'
          \<and> committed (database w')
             = [\<lparr>rec_id = 11, rec_url = Str ''https://example.org/apply'',
                 rec_role = Str ''Engineer'', rec_company = Str ''Acme'',
                 rec_description = Str ''Posting 11'', rec_experience = 1,
                 rec_job_type = 1\<rparr>])"
proof -
  let ?d11 = "job_detail ''Posting 11'' ''urn:li:jobPosting:11''"
  let ?d13 = "job_detail ''Posting 13'' ''urn:li:jobPosting:13''"
  let ?r = "\<lparr>rec_id = 11, rec_url = Str ''https://example.org/apply'',
               rec_role = Str ''Engineer'', rec_company = Str ''Acme'',
               rec_description = Str ''Posting 11'', rec_experience = 1, rec_job_type = 1\<rparr>"
  let ?w = "start [Inr ''1'', Inr ''3-5 years'']"
  have a: "parallel_job_search remote no_fetches () [job_summary ''11'', job_summary ''13'']
             = Inr [?d11, ?d13]"
    by code_simp
  have f: "filter (\<lambda>r. rec_experience r \<le> 1)
             (job_records scripted 1 [?d11, ?d13] (provider_state ?w)) = [?r]"
    by code_simp
  have c: "executemany [?r] (database ?w) = Inr \<lparr>committed = [], pending = [?r]\<rparr>"
    by (simp add: executemany_def start_def row_ok_def)
  have d: "committed (database ?w) = []" "pending (database ?w) = []"
    by (simp_all add: start_def)
  from batch_is_experience_filter [of scripted 1 "[?d11, ?d13]" "[]" "provider_state ?w" remote
        no_fetches "()" "[job_summary ''11'', job_summary ''13'']" ?w]
  have "parallel_job_search remote no_fetches () [job_summary ''11'', job_summary ''13'']
          = Inr [?d11, ?d13]
      \<longrightarrow> (\<exists>w'. job_search remote scripted () [job_summary ''11'', job_summary ''13'']
                  no_fetches ?w 1 = Inr w'
             \<and> committed (database w')
                 = (let batch = filter (\<lambda>r. rec_experience r \<le> 1)
                                  (job_records scripted 1 [?d11, ?d13] (provider_state ?w))
                    in if batch = [] then committed (database ?w)
                       else case executemany batch (database ?w) of
                              Inr c \<Rightarrow> committed (database ?w) @ pending (database ?w) @ batch
                            | Inl e \<Rightarrow> committed (database ?w)))"
    by (rule conjunct2)
  with a have "\<exists>w'. job_search remote scripted () [job_summary ''11'', job_summary ''13'']
                  no_fetches ?w 1 = Inr w'
             \<and> committed (database w') = [?r]"
    unfolding f Let_def c d by simp
  with a show ?thesis by (rule conjI)
qed



section \<open>The claims on the fetch\<close>

lemma details_hit:
  "map_of (cache st) (api, j) = Some v \<Longrightarrow>
     get_job_details get_job st api j
       = (Inr v, st\<lparr>cache := ((api, j), v) # filter (\<lambda>e. fst e \<noteq> (api, j)) (cache st)\<rparr>)"
  by (simp add: get_job_details_def Let_def)

lemma details_miss_error:
  "map_of (cache st) (api, j) = None \<Longrightarrow> get_job api j = Inl e \<Longrightarrow>
     get_job_details get_job st api j
       = (Inl e, st\<lparr>remote_calls := remote_calls st @ [(api, j)]\<rparr>)"
  by (simp add: get_job_details_def Let_def)

lemma details_miss_value:
  "map_of (cache st) (api, j) = None \<Longrightarrow> get_job api j = Inr v \<Longrightarrow>
     get_job_details get_job st api j
       = (Inr v, \<lparr>cache = take maxsize (((api, j), v) # cache st),
                  remote_calls = remote_calls st @ [(api, j)]\<rparr>)"
  by (simp add: get_job_details_def Let_def)

lemma details_coherent:
  assumes "coherent get_job st"
  shows "fst (get_job_details get_job st api j) = get_job api j
         \<and> coherent get_job (snd (get_job_details get_job st api j))"
proof (cases "map_of (cache st) (api, j)")
  case None
  show ?thesis
  proof (cases "get_job api j")
    case (Inl e)
    with None assms show ?thesis by (simp add: details_miss_error coherent_def)
  next
    case (Inr v)
    have "set (take maxsize (((api, j), v) # cache st)) \<subseteq> insert ((api, j), v) (set (cache st))"
      using set_take_subset [of maxsize "((api, j), v) # cache st"] by simp
    with None Inr assms show ?thesis
      by (auto simp add: details_miss_value coherent_def list_all_iff)
  qed
next
  case (Some v)
  then have "((api, j), v) \<in> set (cache st)" by (rule map_of_SomeD)
  with Some assms show ?thesis
    by (auto simp add: details_hit coherent_def list_all_iff)
qed

lemma fetch_coherent:
  assumes "coherent get_job st"
  shows "fst (fetch_job_data get_job st api job) = fetch_value get_job api job
         \<and> coherent get_job (snd (fetch_job_data get_job st api job))"
  using assms details_coherent [OF assms]
  by (cases "tracking_urn job") (simp_all add: fetch_job_data_def fetch_value_def)

text \<open>
  Claim C3, as stated: a fetch that raises does not fail the whole parallel fetch. It
  fails: the error of the first job leaves \<open>parallel_job_search\<close>, and the details of
  the second job, whose fetch succeeds, are not returned.
\<close>

theorem fetch_failure_fails_batch_counterexample:
  "parallel_job_search remote no_fetches () [job_summary ''404'', job_summary ''12'']
     = Inl (ProviderError ''not found'')
   \<and> fetch_value remote () (job_summary ''12'')
     = Inr (job_detail ''Posting 12'' ''urn:li:jobPosting:12'')"
  by code_simp

text \<open>
  Claim C3, amended: when the fetch of a job of the batch raises,
  \<open>parallel_job_search\<close> raises the error of the first such job in the order of the
  batch and returns no details; only when no fetch raises does it return the details
  of every job, in the order of the batch.
\<close>

theorem parallel_job_search_first_error:
  assumes "coherent get_job st"
  shows "case parallel_job_search get_job st api jobs of
           Inl e \<Rightarrow>
             \<exists>pre job post. jobs = pre @ job # post
               \<and> list_all (\<lambda>x. \<exists>d. fetch_value get_job api x = Inr d) pre
               \<and> fetch_value get_job api job = Inl e
         | Inr ds \<Rightarrow> map (fetch_value get_job api) jobs = map Inr ds"
  using assms
proof (induction jobs arbitrary: st)
  case Nil
  then show ?case by simp
next
  case (Cons job rest)
  let ?ok = "\<lambda>x. \<exists>d. fetch_value get_job api x = Inr d"
  obtain r st1 where f: "fetch_job_data get_job st api job = (r, st1)"
    by (cases "fetch_job_data get_job st api job")
  with fetch_coherent [OF Cons.prems, of api job]
  have r: "fetch_value get_job api job = r" and c: "coherent get_job st1" by auto
  show ?case
  proof (cases r)
    case (Inl e)
    with f have pj: "parallel_job_search get_job st api (job # rest) = Inl e" by simp
    have "job # rest = [] @ job # rest \<and> list_all ?ok [] \<and> fetch_value get_job api job = Inl e"
      using Inl r by simp
    then have "\<exists>pre j post. job # rest = pre @ j # post \<and> list_all ?ok pre
        \<and> fetch_value get_job api j = Inl e" by blast
    then show ?thesis unfolding pj sum.case .
  next
    case (Inr d)
    note ih = Cons.IH [OF c]
    show ?thesis
    proof (cases "parallel_job_search get_job st1 api rest")
      case (Inl e)
      with ih obtain pre j post where
        p: "rest = pre @ j # post" "list_all ?ok pre" "fetch_value get_job api j = Inl e"
        by auto
      have pj: "parallel_job_search get_job st api (job # rest) = Inl e"
        using f Inr Inl by simp
      have "job # rest = (job # pre) @ j # post \<and> list_all ?ok (job # pre)
          \<and> fetch_value get_job api j = Inl e" using p Inr r by simp
      then have "\<exists>pre j post. job # rest = pre @ j # post \<and> list_all ?ok pre
          \<and> fetch_value get_job api j = Inl e" by blast
      then show ?thesis unfolding pj sum.case .
    next
      case (Inr ds)
      have pj: "parallel_job_search get_job st api (job # rest) = Inr (d # ds)"
        using f \<open>r = Inr d\<close> Inr by simp
      from ih Inr have "map (fetch_value get_job api) rest = map Inr ds" by simp
      with r \<open>r = Inr d\<close> show ?thesis unfolding pj by simp
    qed
  qed
qed

theorem parallel_job_search_first_error_witness:
  "coherent remote no_fetches
   \<and> (case parallel_job_search remote no_fetches () [job_summary ''404'', job_summary ''12''] of
        Inl e \<Rightarrow>
          \<exists>pre job post. [job_summary ''404'', job_summary ''12''] = pre @ job # post
            \<and> list_all (\<lambda>x. \<exists>d. fetch_value remote () x = Inr d) pre
            \<and> fetch_value remote () job = Inl e
      | Inr ds \<Rightarrow>
          map (fetch_value remote ()) [job_summary ''404'', job_summary ''12''] = map Inr ds)"
proof -
  have a: "coherent remote no_fetches" by (simp add: coherent_def no_fetches_def)
  from parallel_job_search_first_error [OF a] a show ?thesis by blast
qed

lemma maxsize_pos: "0 < maxsize"
  by (simp add: maxsize_def)

lemma distinct_front:
  "distinct (map fst c) \<Longrightarrow> distinct (map fst ((k, v) # filter (\<lambda>e. fst e \<noteq> k) c))"
  by (auto simp add: distinct_map_filter)

lemma kept_lookup:
  assumes "kept k v S st"
  shows "map_of (cache st) k = Some v"
proof -
  from assms obtain pre post where c: "cache st = pre @ (k, v) # post"
    and d: "distinct (map fst (cache st))" by (auto simp add: kept_def)
  from d c have "k \<notin> fst ` set pre" by auto
  then have "map_of pre k = None" by (simp add: map_of_eq_None_iff)
  with c show ?thesis by (simp add: map_add_def)
qed

lemma keptI:
  "distinct (map fst (cache st)) \<Longrightarrow> cache st = pre @ (k, v) # post \<Longrightarrow> fst ` set pre \<subseteq> S
     \<Longrightarrow> kept k v S st"
  unfolding kept_def by blast

lemma kept_first:
  assumes "distinct (map fst (cache st))"
    and "get_job_details get_job st api j = (Inr v, st1)"
  shows "kept (api, j) v {} st1"
proof (cases "map_of (cache st) (api, j)")
  case None
  then have nk: "(api, j) \<notin> fst ` set (cache st)" by (simp add: map_of_eq_None_iff)
  from None assms(2) have g: "get_job api j = Inr v"
    by (cases "get_job api j") (auto simp add: details_miss_error details_miss_value)
  with None assms(2) have c: "cache st1 = take maxsize (((api, j), v) # cache st)"
    by (auto simp add: details_miss_value)
  obtain m where m: "maxsize = Suc m" using maxsize_pos by (cases maxsize) auto
  have "distinct (map fst (((api, j), v) # cache st))" using assms(1) nk by simp
  then have d: "distinct (map fst (cache st1))"
    unfolding c take_map [symmetric] by (rule distinct_take)
  have t: "cache st1 = [] @ ((api, j), v) # take m (cache st)"
    unfolding c m by simp
  show ?thesis by (rule keptI [OF d t]) simp
next
  case (Some u)
  with assms(2) have "u = v"
    and c: "cache st1 = ((api, j), v) # filter (\<lambda>e. fst e \<noteq> (api, j)) (cache st)"
    by (auto simp add: details_hit)
  have d: "distinct (map fst (cache st1))" unfolding c using assms(1) by (rule distinct_front)
  have t: "cache st1 = [] @ ((api, j), v) # filter (\<lambda>e. fst e \<noteq> (api, j)) (cache st)"
    using c by simp
  show ?thesis by (rule keptI [OF d t]) simp
qed

lemma kept_same:
  assumes "kept (api, j) v S st"
  shows "kept (api, j) v S (snd (get_job_details get_job st api j))"
proof -
  have l: "map_of (cache st) (api, j) = Some v" using assms by (rule kept_lookup)
  have d: "distinct (map fst (cache st))" using assms by (simp add: kept_def)
  define c where "c = ((api, j), v) # filter (\<lambda>e. fst e \<noteq> (api, j)) (cache st)"
  have s: "snd (get_job_details get_job st api j) = st\<lparr>cache := c\<rparr>"
    by (simp add: details_hit [OF l] c_def)
  have d': "distinct (map fst (cache (st\<lparr>cache := c\<rparr>)))"
    using distinct_front [OF d, of "(api, j)" v] by (simp add: c_def)
  have t: "cache (st\<lparr>cache := c\<rparr>) = [] @ ((api, j), v) # filter (\<lambda>e. fst e \<noteq> (api, j)) (cache st)"
    by (simp add: c_def)
  show ?thesis unfolding s by (rule keptI [OF d' t]) simp
qed

lemma kept_mono: "kept k v S st \<Longrightarrow> S \<subseteq> T \<Longrightarrow> kept k v T st"
  unfolding kept_def by blast

lemma filter_split:
  "fst x \<noteq> q \<Longrightarrow>
     filter (\<lambda>e. fst e \<noteq> q) (pre @ x # post)
       = filter (\<lambda>e. fst e \<noteq> q) pre @ x # filter (\<lambda>e. fst e \<noteq> q) post"
  by simp

lemma kept_other:
  assumes "kept k v S st" and "(a, j) \<noteq> k" and "finite S" and "card (insert (a, j) S) < maxsize"
  shows "kept k v (insert (a, j) S) (snd (get_job_details get_job st a j))"
proof -
  from assms(1) obtain pre post where c: "cache st = pre @ (k, v) # post"
    and s: "fst ` set pre \<subseteq> S" and d: "distinct (map fst (cache st))"
    by (auto simp add: kept_def)
  show ?thesis
  proof (cases "map_of (cache st) (a, j)")
    case (Some u)
    define f where "f = filter (\<lambda>e :: ('a \<times> string) \<times> json. fst e \<noteq> (a, j))"
    define c' where "c' = ((a, j), u) # f (cache st)"
    have r: "snd (get_job_details get_job st a j) = st\<lparr>cache := c'\<rparr>"
      by (simp add: details_hit [OF Some] c'_def f_def)
    have d': "distinct (map fst (cache (st\<lparr>cache := c'\<rparr>)))"
      using distinct_front [OF d, of "(a, j)" u] by (simp add: c'_def f_def)
    have "fst (k, v) \<noteq> (a, j)" using assms(2) by auto
    then have "f (pre @ (k, v) # post) = f pre @ (k, v) # f post"
      unfolding f_def by (rule filter_split)
    then have t: "cache (st\<lparr>cache := c'\<rparr>) = (((a, j), u) # f pre) @ (k, v) # f post"
      by (simp add: c'_def c)
    have sub: "fst ` set (((a, j), u) # f pre) \<subseteq> insert (a, j) S"
      using s by (auto simp add: f_def)
    show ?thesis unfolding r by (rule keptI [OF d' t sub])
  next
    case None
    show ?thesis
    proof (cases "get_job a j")
      case (Inl e)
      have "kept k v (insert (a, j) S) st" using assms(1) by (rule kept_mono) auto
      then show ?thesis by (simp add: details_miss_error [of st a j get_job e, OF None Inl] kept_def)
    next
      case (Inr u)
      have nk: "(a, j) \<notin> fst ` set (cache st)" using None by (simp add: map_of_eq_None_iff)
      define c' where "c' = ((a, j), u) # cache st"
      define p where "p = ((a, j), u) # pre"
      have dc: "distinct (map fst c')" using d nk by (simp add: c'_def)
      have cp: "c' = p @ (k, v) # post" by (simp add: c'_def p_def c)
      have dp: "distinct (map fst p)" using dc cp by simp
      have sub: "fst ` set p \<subseteq> insert (a, j) S" using s by (auto simp add: p_def)
      have fin: "finite (insert (a, j) S)" using assms(3) by simp
      have "length p = card (fst ` set p)"
        using distinct_card [OF dp] by simp
      also have "\<dots> \<le> card (insert (a, j) S)"
        by (rule card_mono [OF fin sub])
      finally have len: "length p < maxsize" using assms(4) by simp
      then obtain m where m: "maxsize - length p = Suc m"
        by (cases "maxsize - length p") auto
      have "take maxsize c' = take maxsize p @ take (Suc m) ((k, v) # post)"
        unfolding cp take_append m ..
      also have "take maxsize p = p" using len by simp
      finally have t: "take maxsize c' = p @ (k, v) # take m post" by simp
      have d': "distinct (map fst (take maxsize c'))"
        unfolding take_map [symmetric] using dc by (rule distinct_take)
      define st' where "st' = \<lparr>cache = take maxsize c', remote_calls = remote_calls st @ [(a, j)]\<rparr>"
      have r: "snd (get_job_details get_job st a j) = st'"
        by (simp add: details_miss_value [of st a j get_job u, OF None Inr] st'_def c'_def)
      have d'': "distinct (map fst (cache st'))" using d' by (simp add: st'_def)
      have t': "cache st' = p @ (k, v) # take m post" using t by (simp add: st'_def)
      show ?thesis unfolding r by (rule keptI [OF d'' t' sub])
    qed
  qed
qed

lemma kept_many:
  assumes "kept k v {} st"
  shows "card (set others - {k}) < maxsize \<Longrightarrow> kept k v (set others - {k}) (then_fetch get_job st others)"
proof (induction others rule: rev_induct)
  case Nil
  with assms show ?case by (simp add: then_fetch_def)
next
  case (snoc x xs)
  obtain a j where x: "x = (a, j)" by (cases x)
  have "card (set xs - {k}) \<le> card (set (xs @ [x]) - {k})"
    by (rule card_mono) auto
  with snoc.prems have "card (set xs - {k}) < maxsize" by simp
  then have ih: "kept k v (set xs - {k}) (then_fetch get_job st xs)" by (rule snoc.IH)
  have step: "then_fetch get_job st (xs @ [x])
      = snd (get_job_details get_job (then_fetch get_job st xs) a j)"
    by (simp add: then_fetch_def x)
  show ?case
  proof (cases "x = k")
    case True
    then have e: "set (xs @ [x]) - {k} = set xs - {k}" by auto
    have "kept (a, j) v (set xs - {k}) (snd (get_job_details get_job (then_fetch get_job st xs) a j))"
      using ih True x by (intro kept_same) simp
    then show ?thesis unfolding e step using True x by simp
  next
    case False
    then have e: "set (xs @ [x]) - {k} = insert (a, j) (set xs - {k})" using x by auto
    have "kept k v (insert (a, j) (set xs - {k})) (snd (get_job_details get_job (then_fetch get_job st xs) a j))"
      using ih
    proof (rule kept_other)
      show "(a, j) \<noteq> k" using False x by simp
      show "finite (set xs - {k})" by simp
      show "card (insert (a, j) (set xs - {k})) < maxsize" using snoc.prems e by simp
    qed
    then show ?thesis unfolding e step .
  qed
qed

lemma details_bounded:
  assumes "length (cache st) \<le> maxsize"
  shows "length (cache (snd (get_job_details get_job st api j))) \<le> maxsize"
proof (cases "map_of (cache st) (api, j)")
  case None
  then show ?thesis using assms
    by (cases "get_job api j") (simp_all add: details_miss_error details_miss_value)
next
  case (Some v)
  then have "((api, j), v) \<in> set (cache st)" by (rule map_of_SomeD)
  then have "length (filter (\<lambda>e. fst e \<noteq> (api, j)) (cache st)) < length (cache st)"
    by (rule length_filter_less) simp
  with assms show ?thesis by (simp add: details_hit [OF Some])
qed

lemma then_fetch_bounded:
  "length (cache st) \<le> maxsize \<Longrightarrow> length (cache (then_fetch get_job st others)) \<le> maxsize"
proof (induction others rule: rev_induct)
  case Nil
  then show ?case by (simp add: then_fetch_def)
next
  case (snoc x xs)
  obtain a j where x: "x = (a, j)" by (cases x)
  have "then_fetch get_job st (xs @ [x])
      = snd (get_job_details get_job (then_fetch get_job st xs) a j)"
    by (simp add: then_fetch_def x)
  with snoc show ?case by (simp add: details_bounded)
qed

lemma cache_hit_after_value:
  assumes "distinct (map fst (cache st))"
    and "get_job_details get_job st api job_id = (Inr v, st1)"
    and "card (set others - {(api, job_id)}) < maxsize"
  shows "(remote_calls st1 = remote_calls st \<or> remote_calls st1 = remote_calls st @ [(api, job_id)])
         \<and> (\<exists>st3. get_job_details get_job (then_fetch get_job st1 others) api job_id = (Inr v, st3)
               \<and> remote_calls st3 = remote_calls (then_fetch get_job st1 others)
               \<and> (length (cache st) \<le> maxsize \<longrightarrow> length (cache st3) \<le> maxsize))"
proof -
  define st2 where "st2 = then_fetch get_job st1 others"
  have first: "remote_calls st1 = remote_calls st \<or> remote_calls st1 = remote_calls st @ [(api, job_id)]"
    using assms(2) by (auto simp add: get_job_details_def Let_def split: option.splits sum.splits)
  have "kept (api, job_id) v {} st1" using assms(1,2) by (rule kept_first)
  then have "kept (api, job_id) v (set others - {(api, job_id)}) st2"
    unfolding st2_def using assms(3) by (rule kept_many)
  then have l: "map_of (cache st2) (api, job_id) = Some v"
    by (rule kept_lookup)
  have b: "length (cache (snd (get_job_details get_job st2 api job_id))) \<le> maxsize"
    if "length (cache st) \<le> maxsize"
  proof -
    from that have "length (cache (snd (get_job_details get_job st api job_id))) \<le> maxsize"
      by (rule details_bounded)
    with assms(2) have "length (cache st1) \<le> maxsize" by simp
    then have "length (cache st2) \<le> maxsize" unfolding st2_def by (rule then_fetch_bounded)
    then show ?thesis by (rule details_bounded)
  qed
  obtain r st3 where g: "get_job_details get_job st2 api job_id = (r, st3)"
    by (cases "get_job_details get_job st2 api job_id")
  with details_hit [OF l, of get_job] have "r = Inr v" and "remote_calls st3 = remote_calls st2"
    by auto
  moreover from b g have "length (cache st) \<le> maxsize \<longrightarrow> length (cache st3) \<le> maxsize" by simp
  ultimately show ?thesis using first g unfolding st2_def by blast
qed

text \<open>
  Claim C5, as stated: two calls of \<open>get_job_details\<close> with one job identifier perform
  at most one call of the provider. It fails when the first call raises: nothing is
  stored, and the second call reaches the provider again.
\<close>

theorem raising_call_not_cached_counterexample:
  "get_job_details remote no_fetches () ''404''
     = (Inl (ProviderError ''not found''), \<lparr>cache = [], remote_calls = [((), ''404'')]\<rparr>)
   \<and> get_job_details remote \<lparr>cache = [], remote_calls = [((), ''404'')]\<rparr> () ''404''
     = (Inl (ProviderError ''not found''),
        \<lparr>cache = [], remote_calls = [((), ''404''), ((), ''404'')]\<rparr>)"
  by code_simp

text \<open>
  Claim C5, amended, for calls of \<open>get_job_details\<close> that do not overlap: a call reaches
  the provider exactly when the cache has no entry for its arguments. After a call
  that returned the details of a job, a second call with the same arguments performs
  no call of the provider and returns the same details from the cache when fewer than
  1000 other keys were asked for in between (then the entry was not evicted); the
  first call performs at most one call of the provider, and a cache of at most 1000
  entries stays so. A call that raises stores nothing, and the next call with the same
  arguments reaches the provider again.
\<close>

theorem second_call_is_cache_hit:
  "(distinct (map fst (cache st))
      \<and> get_job_details get_job st api job_id = (Inr v, st1)
      \<and> card (set others - {(api, job_id)}) < maxsize
    \<longrightarrow> (remote_calls st1 = remote_calls st
           \<or> remote_calls st1 = remote_calls st @ [(api, job_id)])
        \<and> (\<exists>st3. get_job_details get_job (then_fetch get_job st1 others) api job_id
                    = (Inr v, st3)
              \<and> remote_calls st3 = remote_calls (then_fetch get_job st1 others)
              \<and> (length (cache st) \<le> maxsize \<longrightarrow> length (cache st3) \<le> maxsize)))
   \<and> remote_calls (snd (get_job_details get_job st api job_id))
       = (if map_of (cache st) (api, job_id) = None then remote_calls st @ [(api, job_id)]
          else remote_calls st)
   \<and> (get_job_details get_job st api job_id = (Inl e, st1)
      \<longrightarrow> cache st1 = cache st \<and> remote_calls st1 = remote_calls st @ [(api, job_id)]
          \<and> get_job_details get_job st1 api job_id
              = (Inl e, st1\<lparr>remote_calls := remote_calls st1 @ [(api, job_id)]\<rparr>))"
proof -
  have A: "distinct (map fst (cache st))
      \<and> get_job_details get_job st api job_id = (Inr v, st1)
      \<and> card (set others - {(api, job_id)}) < maxsize
    \<longrightarrow> (remote_calls st1 = remote_calls st
           \<or> remote_calls st1 = remote_calls st @ [(api, job_id)])
        \<and> (\<exists>st3. get_job_details get_job (then_fetch get_job st1 others) api job_id
                    = (Inr v, st3)
              \<and> remote_calls st3 = remote_calls (then_fetch get_job st1 others)
              \<and> (length (cache st) \<le> maxsize \<longrightarrow> length (cache st3) \<le> maxsize))"
  proof
    assume a: "distinct (map fst (cache st))
      \<and> get_job_details get_job st api job_id = (Inr v, st1)
      \<and> card (set others - {(api, job_id)}) < maxsize"
    then have 1: "distinct (map fst (cache st))"
      and 2: "get_job_details get_job st api job_id = (Inr v, st1)"
      and 3: "card (set others - {(api, job_id)}) < maxsize" by simp_all
    from cache_hit_after_value [OF 1 2 3]
    show "(remote_calls st1 = remote_calls st
           \<or> remote_calls st1 = remote_calls st @ [(api, job_id)])
        \<and> (\<exists>st3. get_job_details get_job (then_fetch get_job st1 others) api job_id
                    = (Inr v, st3)
              \<and> remote_calls st3 = remote_calls (then_fetch get_job st1 others)
              \<and> (length (cache st) \<le> maxsize \<longrightarrow> length (cache st3) \<le> maxsize))" .
  qed
  have B: "remote_calls (snd (get_job_details get_job st api job_id))
       = (if map_of (cache st) (api, job_id) = None then remote_calls st @ [(api, job_id)]
          else remote_calls st)"
    by (auto simp add: get_job_details_def Let_def split: option.splits sum.splits)
  have C: "get_job_details get_job st api job_id = (Inl e, st1)
      \<longrightarrow> cache st1 = cache st \<and> remote_calls st1 = remote_calls st @ [(api, job_id)]
          \<and> get_job_details get_job st1 api job_id
              = (Inl e, st1\<lparr>remote_calls := remote_calls st1 @ [(api, job_id)]\<rparr>)"
  proof
    assume a: "get_job_details get_job st api job_id = (Inl e, st1)"
    then have m: "map_of (cache st) (api, job_id) = None"
      by (auto simp add: get_job_details_def Let_def split: option.splits)
    with a have g: "get_job api job_id = Inl e"
      by (cases "get_job api job_id") (auto simp add: details_miss_error details_miss_value)
    from a have s: "st1 = st\<lparr>remote_calls := remote_calls st @ [(api, job_id)]\<rparr>"
      by (simp add: details_miss_error [of st api job_id get_job e, OF m g])
    have m1: "map_of (cache st1) (api, job_id) = None" using m s by simp
    show "cache st1 = cache st \<and> remote_calls st1 = remote_calls st @ [(api, job_id)]
          \<and> get_job_details get_job st1 api job_id
              = (Inl e, st1\<lparr>remote_calls := remote_calls st1 @ [(api, job_id)]\<rparr>)"
      using s details_miss_error [of st1 api job_id get_job e, OF m1 g] by simp
  qed
  show ?thesis by (rule conjI [OF A conjI [OF B C]])
qed

theorem second_call_is_cache_hit_witness:
  "get_job_details remote no_fetches () ''11''
     = (Inr (job_detail ''Posting 11'' ''urn:li:jobPosting:11''),
        \<lparr>cache = [(((), ''11''), job_detail ''Posting 11'' ''urn:li:jobPosting:11'')],
         remote_calls = [((), ''11'')]\<rparr>)
   \<and> length (cache no_fetches) \<le> maxsize
   \<and> (\<exists>st3. get_job_details remote
               (then_fetch remote
                  \<lparr>cache = [(((), ''11''), job_detail ''Posting 11'' ''urn:li:jobPosting:11'')],
                   remote_calls = [((), ''11'')]\<rparr>
                  [((), ''12''), ((), ''404'')]) () ''11''
             = (Inr (job_detail ''Posting 11'' ''urn:li:jobPosting:11''), st3)
          \<and> remote_calls st3
             = remote_calls (then_fetch remote
                  \<lparr>cache = [(((), ''11''), job_detail ''Posting 11'' ''urn:li:jobPosting:11'')],
                   remote_calls = [((), ''11'')]\<rparr>
                  [((), ''12''), ((), ''404'')])
          \<and> length (cache st3) \<le> maxsize)
   \<and> get_job_details remote no_fetches () ''404''
       = (Inl (ProviderError ''not found''), \<lparr>cache = [], remote_calls = [((), ''404'')]\<rparr>)
   \<and> get_job_details remote \<lparr>cache = [], remote_calls = [((), ''404'')]\<rparr> () ''404''
       = (Inl (ProviderError ''not found''),
          \<lparr>cache = [], remote_calls = [((), ''404''), ((), ''404'')]\<rparr>)"
proof -
  let ?v = "job_detail ''Posting 11'' ''urn:li:jobPosting:11''"
  let ?st1 = "\<lparr>cache = [(((), ''11''), ?v)], remote_calls = [((), ''11'')]\<rparr>"
  let ?others = "[((), ''12''), ((), ''404'')]"
  let ?e = "ProviderError ''not found''"
  let ?st4 = "\<lparr>cache = [], remote_calls = [((), ''404'')]\<rparr> :: unit fetch_state"
  have a: "distinct (map fst (cache no_fetches))" by (simp add: no_fetches_def)
  have b: "get_job_details remote no_fetches () ''11'' = (Inr ?v, ?st1)"
    by (simp add: get_job_details_def no_fetches_def remote_def maxsize_def Let_def)
  have c: "card (set ?others - {((), ''11'')}) < maxsize"
    by (simp add: maxsize_def)
  have d: "length (cache no_fetches) \<le> maxsize" by (simp add: no_fetches_def)
  have f: "get_job_details remote no_fetches () ''404'' = (Inl ?e, ?st4)"
    by (simp add: get_job_details_def no_fetches_def remote_def Let_def)
  note t1 = second_call_is_cache_hit
      [of no_fetches remote "()" "''11''" ?v ?st1 ?others, THEN conjunct1]
  note t2 = second_call_is_cache_hit
      [of no_fetches remote "()" "''404''" _ ?st4 _ ?e, THEN conjunct2, THEN conjunct2]
  from t1 a b c d
  have 1: "\<exists>st3. get_job_details remote (then_fetch remote ?st1 ?others) () ''11''
               = (Inr ?v, st3)
           \<and> remote_calls st3 = remote_calls (then_fetch remote ?st1 ?others)
           \<and> length (cache st3) \<le> maxsize"
    by blast
  from t2 f
  have 2: "get_job_details remote ?st4 () ''404''
       = (Inl ?e, \<lparr>cache = [], remote_calls = [((), ''404''), ((), ''404'')]\<rparr>)"
    by simp
  from b d 1 f 2 show ?thesis by blast
qed

section \<open>The claim on \<open>batch_insert_jobs\<close>\<close>

text \<open>
  Claim C6: when the insert of a batch fails, as it does when an \<open>Id\<close> violates the
  primary key, \<open>batch_insert_jobs\<close> does not commit: the connection is as before, so
  no row of the batch is persisted, and one line is printed; nothing is tried again.
  When the insert succeeds, all rows of the batch are committed.
\<close>

theorem batch_insert_all_or_nothing:
  "(executemany batch conn = Inl e \<longrightarrow> batch_insert_jobs conn batch = (conn, [InsertError e]))
   \<and> (\<not> distinct (map rec_id (committed conn @ pending conn @ batch))
        \<longrightarrow> (\<exists>e'. batch_insert_jobs conn batch = (conn, [InsertError e'])))
   \<and> (executemany batch conn = Inr c
        \<longrightarrow> batch_insert_jobs conn batch
              = (\<lparr>committed = committed conn @ pending conn @ batch, pending = []\<rparr>, []))"
  by (auto simp add: batch_insert_jobs_def executemany_def commit_def split: if_splits)

theorem batch_insert_all_or_nothing_witness:
  "\<not> distinct (map rec_id ([row 11] @ [] @ [row 12, row 11]))
   \<and> (\<exists>e'. batch_insert_jobs \<lparr>committed = [row 11], pending = []\<rparr> [row 12, row 11]
              = (\<lparr>committed = [row 11], pending = []\<rparr>, [InsertError e']))"
  using batch_insert_all_or_nothing
          [of "[row 12, row 11]" "\<lparr>committed = [row 11], pending = []\<rparr>", THEN conjunct2, THEN conjunct1]
  by (simp add: row_def)

end
